theory Spec2Isabelle
  imports Complex_Main "HOL-Library.Multiset" "HOL-Library.Char_ord" "HOL-Library.List_Lexorder"
begin

section \<open>Iris SVM classification notebook\<close>

text \<open>
  The repository is one Jupyter notebook, kept in two variants in
  \<^verbatim>\<open>src/iris_classification.ipynb\<close>. Variant 1 splits the data into training,
  validation and test subsets and searches gamma over \<^verbatim>\<open>range(1,3)\<close> and C over
  \<^verbatim>\<open>range(1,301)\<close> divided by 100; variant 2 splits into training and test subsets only
  and searches \<^verbatim>\<open>range(1,31)\<close> by \<^verbatim>\<open>range(1,31)\<close> divided by 10.

  The notebook's cells are modelled as functions from the notebook's variables to their
  new values. What the notebook calls in scikit-learn, NumPy and pandas is not part of
  the repository: the classifier and the random generator are parameters of the model,
  and the few library rules the cells depend on (subset sizes of
  \<^verbatim>\<open>train_test_split\<close>, \<^verbatim>\<open>list.index\<close>, \<^verbatim>\<open>max\<close>, \<^verbatim>\<open>crosstab\<close>) are written out.
  A Python float is modelled as the real number it holds, and float arithmetic rounds
  to the nearest double where the result decides which records go where (the subset
  sizes); scores and the values of C are kept as exact reals.
\<close>

subsection \<open>Exceptions\<close>

datatype error = ValueError | ZeroDivisionError | IndexError

subsection \<open>Float arithmetic\<close>

text \<open>
  \<open>double x\<close> is the IEEE 754 double nearest to \<open>x\<close>, ties going to the even
  significand: 53 significant bits, exponents from -1022 with gradual underflow below.
  A Python float literal, and the result of \<^verbatim>\<open>+\<close>, \<^verbatim>\<open>-\<close>, \<^verbatim>\<open>*\<close>, \<^verbatim>\<open>/\<close> on floats, is the
  \<open>double\<close> of the exact value; an integer operand is converted to a float first.
  Infinities and NaN are not modelled: the exponent has no upper bound here.

  \<open>log2_floor m\<close> is the position of the leading bit of \<open>m\<close>, and \<open>scale_up k x\<close> is
  minus the number of doublings, at most \<open>k\<close>, that take \<open>x\<close> to 1 or above, so that
  \<open>exponent x\<close> is the binary exponent of a positive \<open>x\<close>, not below -1022.
\<close>

function log2_floor :: "int \<Rightarrow> int" where
  "log2_floor m = (if m < 2 then 0 else log2_floor (m div 2) + 1)"
  by auto
termination
  by (relation "measure nat") auto

declare log2_floor.simps [simp del]

fun scale_up :: "nat \<Rightarrow> real \<Rightarrow> int" where
  "scale_up 0 x = 0"
| "scale_up (Suc k) x = (if 1 \<le> x then 0 else scale_up k (2 * x) - 1)"

definition exponent :: "real \<Rightarrow> int" where
  "exponent x = (if 1 \<le> x then log2_floor \<lfloor>x\<rfloor> else scale_up 1022 x)"

definition pow2 :: "int \<Rightarrow> real" where
  "pow2 i = (if 0 \<le> i then 2 ^ nat i else 1 / 2 ^ nat (- i))"

definition round_half_even :: "real \<Rightarrow> int" where
  "round_half_even y =
     (if y - of_int \<lfloor>y\<rfloor> < 1 / 2 then \<lfloor>y\<rfloor>
      else if 1 / 2 < y - of_int \<lfloor>y\<rfloor> then \<lfloor>y\<rfloor> + 1
      else if even \<lfloor>y\<rfloor> then \<lfloor>y\<rfloor> else \<lfloor>y\<rfloor> + 1)"

definition double :: "real \<Rightarrow> real" where
  "double x =
     (if x = 0 then 0
      else sgn x * of_int (round_half_even (\<bar>x\<bar> / pow2 (exponent \<bar>x\<bar> - 52)))
             * pow2 (exponent \<bar>x\<bar> - 52))"

subsection \<open>Data\<close>

text \<open>
  A record of the data set is a feature vector with its target. The notebook keeps
  features and targets in two parallel arrays (\<^verbatim>\<open>feat_*\<close>, \<^verbatim>\<open>class_*\<close>) that are always
  indexed together; the model keeps them zipped.
\<close>

type_synonym 'f dataset = "('f \<times> int) list"

text \<open>
  The classifier \<^verbatim>\<open>SVC(kernel='rbf', gamma=g, C=c, random_state=rs)\<close> with its methods
  \<^verbatim>\<open>fit\<close>, \<^verbatim>\<open>score\<close> and \<^verbatim>\<open>predict\<close>. Fitting may raise.
\<close>

record ('f, 'm) svc =
  fit :: "nat \<Rightarrow> real \<Rightarrow> nat option \<Rightarrow> 'f dataset \<Rightarrow> error + 'm"
  score :: "'m \<Rightarrow> 'f dataset \<Rightarrow> real"
  predict :: "'m \<Rightarrow> 'f list \<Rightarrow> int list"

text \<open>The three parallel lists \<^verbatim>\<open>scores\<close>, \<^verbatim>\<open>gees\<close>, \<^verbatim>\<open>cees\<close>.\<close>

record observations =
  scores :: "real list"
  gees :: "nat list"
  cees :: "real list"

subsection \<open>Grid search\<close>

text \<open>
  \<^verbatim>\<open>
  for g in range(1,3):
      for c in range(1,301):
          c = c / 100.0
          classes = SVC(kernel = 'rbf', gamma = g, C = c, random_state = 61)
          classes.fit(feat_train_all, class_train_all)
          scores.append(classes.score(feat_valid_all, class_valid_all))
          gees.append(g)
          cees.append(c)
  \<close>
  The two variants differ in the ranges, the divisor, the \<^verbatim>\<open>random_state\<close> and the subset
  that is scored, which are the parameters \<open>g_range\<close>, \<open>c_range\<close>, \<open>d\<close>, \<open>rs\<close> and \<open>va\<close>.
\<close>

fun inner_loop ::
  "('f, 'm) svc \<Rightarrow> 'f dataset \<Rightarrow> 'f dataset \<Rightarrow> real \<Rightarrow> nat \<Rightarrow> nat \<Rightarrow> nat list
     \<Rightarrow> observations \<Rightarrow> error + observations" where
  "inner_loop L tr va d rs g [] obs = Inr obs"
| "inner_loop L tr va d rs g (c # cs) obs =
     (case fit L g (real c / d) (Some rs) tr of
        Inl e \<Rightarrow> Inl e
      | Inr classes \<Rightarrow>
          inner_loop L tr va d rs g cs
            (obs\<lparr>scores := scores obs @ [score L classes va],
                 gees := gees obs @ [g],
                 cees := cees obs @ [real c / d]\<rparr>))"

fun outer_loop ::
  "('f, 'm) svc \<Rightarrow> 'f dataset \<Rightarrow> 'f dataset \<Rightarrow> real \<Rightarrow> nat \<Rightarrow> nat list \<Rightarrow> nat list
     \<Rightarrow> observations \<Rightarrow> error + observations" where
  "outer_loop L tr va d rs [] c_range obs = Inr obs"
| "outer_loop L tr va d rs (g # gs) c_range obs =
     (case inner_loop L tr va d rs g c_range obs of
        Inl e \<Rightarrow> Inl e
      | Inr obs' \<Rightarrow> outer_loop L tr va d rs gs c_range obs')"

definition grid_search ::
  "('f, 'm) svc \<Rightarrow> 'f dataset \<Rightarrow> 'f dataset \<Rightarrow> real \<Rightarrow> nat \<Rightarrow> nat list \<Rightarrow> nat list
     \<Rightarrow> error + observations" where
  "grid_search L tr va d rs g_range c_range =
     outer_loop L tr va d rs g_range c_range \<lparr>scores = [], gees = [], cees = []\<rparr>"

text \<open>Variant 1 scores on the validation subset, variant 2 on the test subset.\<close>

definition grid_search_v1 :: "('f, 'm) svc \<Rightarrow> 'f dataset \<Rightarrow> 'f dataset \<Rightarrow> error + observations" where
  "grid_search_v1 L feat_train_all feat_valid_all =
     grid_search L feat_train_all feat_valid_all 100 61 [1..<3] [1..<301]"

definition grid_search_v2 :: "('f, 'm) svc \<Rightarrow> 'f dataset \<Rightarrow> 'f dataset \<Rightarrow> error + observations" where
  "grid_search_v2 L feat_train_all feat_test_all =
     grid_search L feat_train_all feat_test_all 10 21 [1..<31] [1..<31]"

text \<open>The score one grid point gets: fit, then score, as the loop body does.\<close>

definition fit_score ::
  "('f, 'm) svc \<Rightarrow> 'f dataset \<Rightarrow> 'f dataset \<Rightarrow> nat \<Rightarrow> nat \<Rightarrow> real \<Rightarrow> error + real" where
  "fit_score L tr va rs g c =
     (case fit L g c (Some rs) tr of Inl e \<Rightarrow> Inl e | Inr classes \<Rightarrow> Inr (score L classes va))"

text \<open>
  For stating what the grid search returns: every fit of the grid succeeds, and the score
  of the classifier fitted at a grid point.
\<close>

definition all_fit :: "('f, 'm) svc \<Rightarrow> 'f dataset \<Rightarrow> real \<Rightarrow> nat \<Rightarrow> nat list \<Rightarrow> nat list \<Rightarrow> bool" where
  "all_fit L tr d rs g_range c_range =
     (\<forall>g \<in> set g_range. \<forall>c \<in> set c_range. \<exists>m. fit L g (real c / d) (Some rs) tr = Inr m)"

definition the_score :: "('f, 'm) svc \<Rightarrow> 'f dataset \<Rightarrow> 'f dataset \<Rightarrow> real \<Rightarrow> nat \<Rightarrow> nat \<Rightarrow> nat \<Rightarrow> real" where
  "the_score L tr va d rs g c =
     (case fit L g (real c / d) (Some rs) tr of Inl e \<Rightarrow> 0 | Inr m \<Rightarrow> score L m va)"

subsection \<open>Selection and retraining\<close>

text \<open>
  \<^verbatim>\<open>xs.index(x)\<close>: the first position holding \<open>x\<close>, \<^verbatim>\<open>ValueError\<close> when there is none.
  \<^verbatim>\<open>max(xs)\<close>: the largest item, \<^verbatim>\<open>ValueError\<close> on an empty list; Python keeps the
  current maximum unless a later item is strictly greater. \<^verbatim>\<open>xs[i]\<close> for a
  non-negative literal \<open>i\<close>: \<^verbatim>\<open>IndexError\<close> beyond the end.
\<close>

fun index :: "'a list \<Rightarrow> 'a \<Rightarrow> error + nat" where
  "index [] x = Inl ValueError"
| "index (y # ys) x =
     (if y = x then Inr 0
      else case index ys x of Inl e \<Rightarrow> Inl e | Inr i \<Rightarrow> Inr (Suc i))"

definition py_max :: "real list \<Rightarrow> error + real" where
  "py_max xs =
     (case xs of
        [] \<Rightarrow> Inl ValueError
      | y # ys \<Rightarrow> Inr (fold (\<lambda>x m. if m < x then x else m) ys y))"

definition getitem :: "'a list \<Rightarrow> nat \<Rightarrow> error + 'a" where
  "getitem xs i = (if i < length xs then Inr (xs ! i) else Inl IndexError)"

text \<open>
  \<^verbatim>\<open>
  print(scores.index(max(scores)), max(scores))
  print(gees[117])
  print(cees[117])
  \<close>
  The cell's result is what it prints. The position \<open>k\<close> is the literal of the cell:
  117 in variant 1, 34 in variant 2.
\<close>

definition selection_cell :: "nat \<Rightarrow> observations \<Rightarrow> error + (nat \<times> real \<times> nat \<times> real)" where
  "selection_cell k obs =
     (case py_max (scores obs) of
        Inl e \<Rightarrow> Inl e
      | Inr m \<Rightarrow>
          (case index (scores obs) m of
             Inl e \<Rightarrow> Inl e
           | Inr i \<Rightarrow>
               (case getitem (gees obs) k of
                  Inl e \<Rightarrow> Inl e
                | Inr g \<Rightarrow>
                    (case getitem (cees obs) k of
                       Inl e \<Rightarrow> Inl e
                     | Inr c \<Rightarrow> Inr (i, m, g, c)))))"

text \<open>
  \<^verbatim>\<open>
  best_all_classifier = SVC(kernel = 'rbf', gamma = gees[117], C = cees[117])
  best_all_classifier.fit(feat_train_all, class_train_all)
  best_all_predictions = best_all_classifier.predict(feat_test_all)
  \<close>
  No \<^verbatim>\<open>random_state\<close> is passed here. The cell leaves the fitted classifier and its
  predictions on the test features.
\<close>

definition retrain_cell ::
  "nat \<Rightarrow> ('f, 'm) svc \<Rightarrow> observations \<Rightarrow> 'f dataset \<Rightarrow> 'f dataset \<Rightarrow> error + ('m \<times> int list)" where
  "retrain_cell k L obs feat_train_all feat_test_all =
     (case getitem (gees obs) k of
        Inl e \<Rightarrow> Inl e
      | Inr g \<Rightarrow>
          (case getitem (cees obs) k of
             Inl e \<Rightarrow> Inl e
           | Inr c \<Rightarrow>
               (case fit L g c None feat_train_all of
                  Inl e \<Rightarrow> Inl e
                | Inr best_all_classifier \<Rightarrow>
                    Inr (best_all_classifier,
                         predict L best_all_classifier (map fst feat_test_all)))))"

text \<open>Grid search followed by the selection cell, per variant.\<close>

definition select_v1 ::
  "('f, 'm) svc \<Rightarrow> 'f dataset \<Rightarrow> 'f dataset \<Rightarrow> error + (nat \<times> real \<times> nat \<times> real)" where
  "select_v1 L feat_train_all feat_valid_all =
     (case grid_search_v1 L feat_train_all feat_valid_all of
        Inl e \<Rightarrow> Inl e
      | Inr obs \<Rightarrow> selection_cell 117 obs)"

definition select_v2 ::
  "('f, 'm) svc \<Rightarrow> 'f dataset \<Rightarrow> 'f dataset \<Rightarrow> error + (nat \<times> real \<times> nat \<times> real)" where
  "select_v2 L feat_train_all feat_test_all =
     (case grid_search_v2 L feat_train_all feat_test_all of
        Inl e \<Rightarrow> Inl e
      | Inr obs \<Rightarrow> selection_cell 34 obs)"

text \<open>
  A classifier for running the model: fitting records the hyperparameters, the
  \<^verbatim>\<open>random_state\<close> and the training data; every score is 1 and every prediction is class 0.
\<close>

definition recording_svc :: "(nat, nat \<times> real \<times> nat option \<times> nat dataset) svc" where
  "recording_svc =
     \<lparr>fit = (\<lambda>g c rs tr. Inr (g, c, rs, tr)),
      score = (\<lambda>m va. 1),
      predict = (\<lambda>m xs. map (\<lambda>x. 0) xs)\<rparr>"

subsection \<open>Partitioning\<close>

text \<open>
  NumPy's generator: \<^verbatim>\<open>RandomState(seed)\<close> makes a generator from an integer seed, and
  \<^verbatim>\<open>permutation(n)\<close> draws a permutation of \<^verbatim>\<open>range(n)\<close> and advances the generator.
  Both are parameters. \<open>good_rng\<close> says that what \<^verbatim>\<open>permutation\<close> returns is a permutation.
\<close>

record 'r rng =
  RandomState :: "nat \<Rightarrow> 'r"
  permutation :: "'r \<Rightarrow> nat \<Rightarrow> nat list \<times> 'r"

definition good_rng :: "'r rng \<Rightarrow> bool" where
  "good_rng R = (\<forall>r n. mset (fst (permutation R r n)) = mset [0..<n])"

text \<open>
  The subset sizes of scikit-learn's \<^verbatim>\<open>train_test_split\<close> for a float \<^verbatim>\<open>test_size\<close> and a
  float or absent \<^verbatim>\<open>train_size\<close>: both must lie strictly between 0 and 1 and must not
  add up to more than 1; the test subset gets \<^verbatim>\<open>ceil(test_size * n_samples)\<close> records, the
  training subset \<^verbatim>\<open>floor(train_size * n_samples)\<close>, or all the others when \<^verbatim>\<open>train_size\<close>
  is absent; an empty training subset is refused. Every refusal is a \<^verbatim>\<open>ValueError\<close>.
  The sum and the products are float operations, so \<^verbatim>\<open>ceil\<close> and \<^verbatim>\<open>floor\<close> are taken of
  the rounded product.
\<close>

definition validate_shuffle_split :: "nat \<Rightarrow> real \<Rightarrow> real option \<Rightarrow> error + (nat \<times> nat)" where
  "validate_shuffle_split n_samples test_size train_size =
     (if test_size \<le> 0 \<or> 1 \<le> test_size then Inl ValueError
      else if (case train_size of None \<Rightarrow> False | Some t \<Rightarrow> t \<le> 0 \<or> 1 \<le> t) then Inl ValueError
      else if (case train_size of None \<Rightarrow> False | Some t \<Rightarrow> 1 < double (t + test_size))
        then Inl ValueError
      else
        let n_test = nat \<lceil>double (test_size * double (real n_samples))\<rceil>;
            n_train = (case train_size of
                         None \<Rightarrow> n_samples - n_test
                       | Some t \<Rightarrow> nat \<lfloor>double (t * double (real n_samples))\<rfloor>)
        in if n_samples < n_train + n_test then Inl ValueError
           else if n_train = 0 then Inl ValueError
           else Inr (n_train, n_test))"

text \<open>
  \<^verbatim>\<open>train_test_split(arrays, test_size, train_size, random_state)\<close>: the first \<open>n_test\<close>
  indices of the permutation select the test subset, the next \<open>n_train\<close> the training
  subset. An integer \<^verbatim>\<open>random_state\<close> seeds a generator of its own; without one the
  ambient generator \<open>g\<close> is used and advanced. The result is the pair (training, test)
  and the ambient generator afterwards.
\<close>

definition train_test_split ::
  "'r rng \<Rightarrow> 'r \<Rightarrow> 'a list \<Rightarrow> real \<Rightarrow> real option \<Rightarrow> nat option
     \<Rightarrow> (error + ('a list \<times> 'a list)) \<times> 'r" where
  "train_test_split R g arrays test_size train_size random_state =
     (case validate_shuffle_split (length arrays) test_size train_size of
        Inl e \<Rightarrow> (Inl e, g)
      | Inr (n_train, n_test) \<Rightarrow>
          (case random_state of
             None \<Rightarrow>
               (case permutation R g (length arrays) of
                  (perm, g') \<Rightarrow>
                    (Inr (map (nth arrays) (take n_train (drop n_test perm)),
                          map (nth arrays) (take n_test perm)), g'))
           | Some seed \<Rightarrow>
               (case permutation R (RandomState R seed) (length arrays) of
                  (perm, r') \<Rightarrow>
                    (Inr (map (nth arrays) (take n_train (drop n_test perm)),
                          map (nth arrays) (take n_test perm)), g))))"

record 'a partition =
  train :: "'a list"
  valid :: "'a list"
  test :: "'a list"

text \<open>
  Variant 1:
  \<^verbatim>\<open>
  train_frac = 0.70
  valid_frac = 0.15
  test_frac = 0.15
  adj_valid_frac = valid_frac / (1 - test_frac)
  feat_nottest_all, feat_test_all, class_nottest_all, class_test_all =  \
        train_test_split(all_features, targets, test_size = test_frac, random_state = 62)
  feat_train_all, feat_valid_all, class_train_all, class_valid_all =  \
        train_test_split(feat_nottest_all, class_nottest_all, test_size = adj_valid_frac, random_state = 62)
  \<close>
  The fractions and the seed are arguments of the model, so that the cell can be run at
  other values than the notebook's; the cell itself passes the doubles of its literals.
  \<^verbatim>\<open>train_frac\<close> is assigned and never read. Python's float division raises
  \<^verbatim>\<open>ZeroDivisionError\<close> on a zero divisor.
\<close>

definition partitioner_v1 ::
  "'r rng \<Rightarrow> 'r \<Rightarrow> real \<Rightarrow> real \<Rightarrow> real \<Rightarrow> nat \<Rightarrow> 'a list \<Rightarrow> (error + 'a partition) \<times> 'r" where
  "partitioner_v1 R g train_frac valid_frac test_frac seed all_features =
     (if double (1 - test_frac) = 0 then (Inl ZeroDivisionError, g)
      else
        let adj_valid_frac = double (valid_frac / double (1 - test_frac))
        in case train_test_split R g all_features test_frac None (Some seed) of
             (Inl e, g1) \<Rightarrow> (Inl e, g1)
           | (Inr (feat_nottest_all, feat_test_all), g1) \<Rightarrow>
               (case train_test_split R g1 feat_nottest_all adj_valid_frac None (Some seed) of
                  (Inl e, g2) \<Rightarrow> (Inl e, g2)
                | (Inr (feat_train_all, feat_valid_all), g2) \<Rightarrow>
                    (Inr \<lparr>train = feat_train_all, valid = feat_valid_all, test = feat_test_all\<rparr>,
                     g2)))"

definition partition_cell_v1 :: "'r rng \<Rightarrow> 'r \<Rightarrow> 'a list \<Rightarrow> (error + 'a partition) \<times> 'r" where
  "partition_cell_v1 R g all_features =
     partitioner_v1 R g (double (70 / 100)) (double (15 / 100)) (double (15 / 100)) 62
       all_features"

text \<open>
  Variant 2 has no validation subset:
  \<^verbatim>\<open>
  feat_train_all, feat_test_all, class_train_all, class_test_all =  \
        train_test_split(all_features, targets, train_size = 0.8, test_size = 0.2, random_state = 21)
  \<close>
\<close>

definition partitioner_v2 ::
  "'r rng \<Rightarrow> 'r \<Rightarrow> real \<Rightarrow> real \<Rightarrow> nat \<Rightarrow> 'a list \<Rightarrow> (error + 'a partition) \<times> 'r" where
  "partitioner_v2 R g train_size test_size seed all_features =
     (case train_test_split R g all_features test_size (Some train_size) (Some seed) of
        (Inl e, g1) \<Rightarrow> (Inl e, g1)
      | (Inr (feat_train_all, feat_test_all), g1) \<Rightarrow>
          (Inr \<lparr>train = feat_train_all, valid = [], test = feat_test_all\<rparr>, g1))"

definition partition_cell_v2 :: "'r rng \<Rightarrow> 'r \<Rightarrow> 'a list \<Rightarrow> (error + 'a partition) \<times> 'r" where
  "partition_cell_v2 R g all_features =
     partitioner_v2 R g (double (8 / 10)) (double (2 / 10)) 21 all_features"

text \<open>The sizes of the three subsets of a result.\<close>

definition sizes :: "(error + 'a partition) \<Rightarrow> error + (nat \<times> nat \<times> nat)" where
  "sizes res =
     (case res of
        Inl e \<Rightarrow> Inl e
      | Inr P \<Rightarrow> Inr (length (train P), length (valid P), length (test P)))"

text \<open>
  A generator for running the model: the seed is the state, and the permutation it
  draws is the identity rotated by the state.
\<close>

definition rotating_rng :: "nat rng" where
  "rotating_rng =
     \<lparr>RandomState = (\<lambda>seed. seed),
      permutation = (\<lambda>r n. (rotate r [0..<n], Suc r))\<rparr>"

text \<open>
  What \<^verbatim>\<open>train_test_split\<close> returns when it is given an integer \<^verbatim>\<open>random_state\<close>, as a
  function of the generator, the data, the sizes and the seed alone.
\<close>

definition seeded_split ::
  "'r rng \<Rightarrow> 'a list \<Rightarrow> real \<Rightarrow> real option \<Rightarrow> nat \<Rightarrow> error + ('a list \<times> 'a list)" where
  "seeded_split R arrays test_size train_size seed =
     (case validate_shuffle_split (length arrays) test_size train_size of
        Inl e \<Rightarrow> Inl e
      | Inr (n_train, n_test) \<Rightarrow>
          Inr (map (nth arrays)
                 (take n_train (drop n_test
                    (fst (permutation R (RandomState R seed) (length arrays))))),
               map (nth arrays)
                 (take n_test (fst (permutation R (RandomState R seed) (length arrays))))))"

text \<open>
  When a split with a float \<^verbatim>\<open>test_size\<close> \<open>t\<close> and no \<^verbatim>\<open>train_size\<close> is refused for
  \<open>n\<close> records.
\<close>

definition split_refused :: "nat \<Rightarrow> real \<Rightarrow> bool" where
  "split_refused n t =
     (t \<le> 0 \<or> 1 \<le> t \<or> n - nat \<lceil>double (t * double (real n))\<rceil> = 0)"

text \<open>
  The subset sizes in the words of the specification, for comparison with the
  notebook's: \<^verbatim>\<open>round(N * fraction)\<close> for each fraction, and what is left over (or
  missing) after rounding goes to the largest subset.
\<close>

definition spec_subset_sizes :: "nat \<Rightarrow> real \<Rightarrow> real \<Rightarrow> real \<Rightarrow> nat \<times> nat \<times> nat" where
  "spec_subset_sizes N train_frac valid_frac test_frac =
     (let a = round (real N * train_frac);
          b = round (real N * valid_frac);
          c = round (real N * test_frac);
          r = int N - (a + b + c)
      in if b \<le> a \<and> c \<le> a then (nat (a + r), nat b, nat c)
         else if c \<le> b then (nat a, nat (b + r), nat c)
         else (nat a, nat b, nat (c + r)))"

subsection \<open>Reporting\<close>

text \<open>
  \<^verbatim>\<open>np.chararray(shape, itemsize, unicode = True)\<close> allocates \<open>n\<close> items of at most
  \<open>itemsize\<close> characters and does not fill them: an item reads as whatever the
  allocated memory held, which is the parameter \<open>mem\<close> (the empty string at every
  position when the memory was zeroed). Storing a string into an item keeps its first
  \<open>itemsize\<close> characters.
\<close>

definition chararray :: "(nat \<Rightarrow> string) \<Rightarrow> nat \<Rightarrow> nat \<Rightarrow> string list" where
  "chararray mem n itemsize = map (\<lambda>j. take itemsize (mem j)) [0..<n]"

text \<open>
  \<^verbatim>\<open>
  for j in range(len(class_test_all)):
      if class_test_all.iloc[j] == 0:
          classifications[j] = 'setosa'
      elif class_test_all.iloc[j] == 1:
          classifications[j] = 'versicolor'
      elif class_test_all.iloc[j] == 2:
          classifications[j] = 'virginica'
  \<close>
  There is no \<^verbatim>\<open>else\<close>: for any other target the item is not assigned.
\<close>

fun label_loop :: "int list \<Rightarrow> nat \<Rightarrow> nat list \<Rightarrow> string list \<Rightarrow> string list" where
  "label_loop class_test_all itemsize [] classifications = classifications"
| "label_loop class_test_all itemsize (j # js) classifications =
     label_loop class_test_all itemsize js
       (if class_test_all ! j = 0 then classifications[j := take itemsize ''setosa'']
        else if class_test_all ! j = 1 then classifications[j := take itemsize ''versicolor'']
        else if class_test_all ! j = 2 then classifications[j := take itemsize ''virginica'']
        else classifications)"

definition label_names :: "(nat \<Rightarrow> string) \<Rightarrow> int list \<Rightarrow> string list" where
  "label_names mem class_test_all =
     label_loop class_test_all (length class_test_all) [0..<length class_test_all]
       (chararray mem (length class_test_all) (length class_test_all))"

text \<open>
  \<^verbatim>\<open>pd.DataFrame({'predictions': ..., 'classifications': ...})\<close> raises \<^verbatim>\<open>ValueError\<close> when
  the two columns differ in length. \<^verbatim>\<open>pd.crosstab\<close> of the two columns has one row for
  each distinct prediction and one column for each distinct classification, both sorted,
  and each cell counts the records with that prediction and that classification.
\<close>

record crosstab_table =
  row_labels :: "int list"
  col_labels :: "string list"
  cells :: "nat list list"

definition crosstab :: "int list \<Rightarrow> string list \<Rightarrow> error + crosstab_table" where
  "crosstab predictions classifications =
     (if length predictions \<noteq> length classifications then Inl ValueError
      else
        let rows = sort (remdups predictions);
            cols = sort (remdups classifications)
        in Inr \<lparr>row_labels = rows,
                col_labels = cols,
                cells = map (\<lambda>r. map (\<lambda>c. count_list (zip predictions classifications) (r, c)) cols)
                          rows\<rparr>)"

definition result_reporter :: "(nat \<Rightarrow> string) \<Rightarrow> int list \<Rightarrow> int list \<Rightarrow> error + crosstab_table" where
  "result_reporter mem best_all_predictions class_test_all =
     crosstab best_all_predictions (label_names mem class_test_all)"

text \<open>The sum of all cells of a table, and the cell of a row and a column label.\<close>

definition total :: "crosstab_table \<Rightarrow> nat" where
  "total t = sum_list (map sum_list (cells t))"

subsection \<open>The notebook from partitioning to the table\<close>

text \<open>
  The cells in order. Variant 1 searches on the training subset, scores on the
  validation subset and reads position 117; variant 2 scores on the test subset and
  reads position 34. Both fit the final classifier on \<^verbatim>\<open>feat_train_all\<close> and predict
  \<^verbatim>\<open>feat_test_all\<close>. \<open>retrained\<close> is the notebook up to the retraining cell.
\<close>

definition retrained_v1 ::
  "'r rng \<Rightarrow> 'r \<Rightarrow> ('f, 'm) svc \<Rightarrow> 'f dataset \<Rightarrow> error + (('f \<times> int) partition \<times> 'm \<times> int list)" where
  "retrained_v1 R g L data =
     (case fst (partition_cell_v1 R g data) of
        Inl e \<Rightarrow> Inl e
      | Inr P \<Rightarrow>
          (case grid_search_v1 L (train P) (valid P) of
             Inl e \<Rightarrow> Inl e
           | Inr obs \<Rightarrow>
               (case selection_cell 117 obs of
                  Inl e \<Rightarrow> Inl e
                | Inr printed \<Rightarrow>
                    (case retrain_cell 117 L obs (train P) (test P) of
                       Inl e \<Rightarrow> Inl e
                     | Inr (best_all_classifier, best_all_predictions) \<Rightarrow>
                         Inr (P, best_all_classifier, best_all_predictions)))))"

definition retrained_v2 ::
  "'r rng \<Rightarrow> 'r \<Rightarrow> ('f, 'm) svc \<Rightarrow> 'f dataset \<Rightarrow> error + (('f \<times> int) partition \<times> 'm \<times> int list)" where
  "retrained_v2 R g L data =
     (case fst (partition_cell_v2 R g data) of
        Inl e \<Rightarrow> Inl e
      | Inr P \<Rightarrow>
          (case grid_search_v2 L (train P) (test P) of
             Inl e \<Rightarrow> Inl e
           | Inr obs \<Rightarrow>
               (case selection_cell 34 obs of
                  Inl e \<Rightarrow> Inl e
                | Inr printed \<Rightarrow>
                    (case retrain_cell 34 L obs (train P) (test P) of
                       Inl e \<Rightarrow> Inl e
                     | Inr (best_all_classifier, best_all_predictions) \<Rightarrow>
                         Inr (P, best_all_classifier, best_all_predictions)))))"

definition notebook_v1 ::
  "'r rng \<Rightarrow> 'r \<Rightarrow> ('f, 'm) svc \<Rightarrow> (nat \<Rightarrow> string) \<Rightarrow> 'f dataset \<Rightarrow> error + crosstab_table" where
  "notebook_v1 R g L mem data =
     (case retrained_v1 R g L data of
        Inl e \<Rightarrow> Inl e
      | Inr (P, best_all_classifier, best_all_predictions) \<Rightarrow>
          result_reporter mem best_all_predictions (map snd (test P)))"

definition notebook_v2 ::
  "'r rng \<Rightarrow> 'r \<Rightarrow> ('f, 'm) svc \<Rightarrow> (nat \<Rightarrow> string) \<Rightarrow> 'f dataset \<Rightarrow> error + crosstab_table" where
  "notebook_v2 R g L mem data =
     (case retrained_v2 R g L data of
        Inl e \<Rightarrow> Inl e
      | Inr (P, best_all_classifier, best_all_predictions) \<Rightarrow>
          result_reporter mem best_all_predictions (map snd (test P)))"

text \<open>Seven records for running the model.\<close>

definition seven :: "nat dataset" where
  "seven = [(0, 0), (1, 1), (2, 2), (3, 0), (4, 1), (5, 2), (6, 1)]"

section \<open>Properties of the cells\<close>

subsection \<open>Grid enumeration\<close>

lemma inner_loop_ok:
  assumes "\<forall>c \<in> set cs. \<exists>m. fit L g (real c / d) (Some rs) tr = Inr m"
  shows "inner_loop L tr va d rs g cs obs =
           Inr \<lparr>scores = scores obs @ map (the_score L tr va d rs g) cs,
                gees = gees obs @ map (\<lambda>c. g) cs,
                cees = cees obs @ map (\<lambda>c. real c / d) cs\<rparr>"
  using assms
proof (induction cs arbitrary: obs)
  case Nil
  then show ?case by simp
next
  case (Cons c cs)
  from Cons.prems obtain m where m: "fit L g (real c / d) (Some rs) tr = Inr m"
    by auto
  have rest: "\<forall>c \<in> set cs. \<exists>m. fit L g (real c / d) (Some rs) tr = Inr m"
    using Cons.prems by simp
  show ?case
    by (simp add: m Cons.IH [OF rest] the_score_def)
qed

lemma outer_loop_ok:
  assumes "all_fit L tr d rs gs cs"
  shows "outer_loop L tr va d rs gs cs obs =
           Inr \<lparr>scores = scores obs @ map (\<lambda>(g, c). the_score L tr va d rs g c) (List.product gs cs),
                gees = gees obs @ map fst (List.product gs cs),
                cees = cees obs @ map (\<lambda>(g, c). real c / d) (List.product gs cs)\<rparr>"
  using assms
proof (induction gs arbitrary: obs)
  case Nil
  then show ?case by simp
next
  case (Cons g gs)
  have row: "\<forall>c \<in> set cs. \<exists>m. fit L g (real c / d) (Some rs) tr = Inr m"
    using Cons.prems by (simp add: all_fit_def)
  have rest: "all_fit L tr d rs gs cs"
    using Cons.prems by (simp add: all_fit_def)
  show ?case
    by (simp add: inner_loop_ok [OF row] Cons.IH [OF rest] comp_def)
qed

lemma grid_search_ok:
  assumes "all_fit L tr d rs gs cs"
  shows "grid_search L tr va d rs gs cs =
           Inr \<lparr>scores = map (\<lambda>(g, c). the_score L tr va d rs g c) (List.product gs cs),
                gees = map fst (List.product gs cs),
                cees = map (\<lambda>(g, c). real c / d) (List.product gs cs)\<rparr>"
  by (simp add: grid_search_def outer_loop_ok [OF assms])

lemma row_major_div: "j < (n::nat) \<Longrightarrow> (i * n + j) div n = i"
  using div_mult_self3 [of n j i] by simp

lemma row_major_mod: "j < (n::nat) \<Longrightarrow> (i * n + j) mod n = j"
  by simp

lemma product_row_major:
  assumes "i < length gs" "j < length cs"
  shows "i * length cs + j < length gs * length cs"
    and "List.product gs cs ! (i * length cs + j) = (gs ! i, cs ! j)"
proof -
  have "i * length cs + j < i * length cs + length cs"
    using assms(2) by simp
  also have "\<dots> = Suc i * length cs"
    by simp
  also have "\<dots> \<le> length gs * length cs"
    using assms(1) by (intro mult_le_mono1) simp
  finally show lt: "i * length cs + j < length gs * length cs" .
  have "(i * length cs + j) div length cs = i"
    using assms(2) by (rule row_major_div)
  moreover have "(i * length cs + j) mod length cs = j"
    using assms(2) by (rule row_major_mod)
  ultimately show "List.product gs cs ! (i * length cs + j) = (gs ! i, cs ! j)"
    by (simp add: product_nth [OF lt])
qed

lemma inner_loop_Inr:
  "inner_loop L tr va d rs g cs obs = Inr obs' \<Longrightarrow>
     \<forall>c \<in> set cs. \<exists>m. fit L g (real c / d) (Some rs) tr = Inr m"
  by (induction cs arbitrary: obs) (auto split: sum.splits)

lemma outer_loop_Inr:
  "outer_loop L tr va d rs gs cs obs = Inr obs' \<Longrightarrow> all_fit L tr d rs gs cs"
proof (induction gs arbitrary: obs)
  case Nil
  then show ?case by (simp add: all_fit_def)
next
  case (Cons g gs)
  from Cons.prems obtain obs1 where
    row: "inner_loop L tr va d rs g cs obs = Inr obs1" and
    rest: "outer_loop L tr va d rs gs cs obs1 = Inr obs'"
    by (auto split: sum.splits)
  show ?case
    using inner_loop_Inr [OF row] Cons.IH [OF rest] by (simp add: all_fit_def)
qed

lemma grid_search_Inr:
  "grid_search L tr va d rs gs cs = Inr obs \<Longrightarrow> all_fit L tr d rs gs cs"
  unfolding grid_search_def by (rule outer_loop_Inr)

lemma the_score_fit_score:
  assumes "all_fit L tr d rs gs cs" "g \<in> set gs" "c \<in> set cs"
  shows "fit_score L tr va rs g (real c / d) = Inr (the_score L tr va d rs g c)"
proof -
  from assms obtain m where "fit L g (real c / d) (Some rs) tr = Inr m"
    unfolding all_fit_def by blast
  then show ?thesis
    by (simp add: fit_score_def the_score_def)
qed

text \<open>
  C3. When every fit succeeds, the grid search returns three lists of length
  \<open>a * b\<close>, where \<open>a\<close> and \<open>b\<close> are the lengths of the two ranges, and position
  \<open>i * b + j\<close> holds the gamma at position \<open>i\<close> of the outer range, the C computed from
  position \<open>j\<close> of the inner range, and the score of the classifier fitted at that point:
  row-major order, outer loop over gamma, inner loop over C.
\<close>

theorem grid_enumeration_order:
  assumes "all_fit L tr d rs gs cs"
  shows "\<exists>obs. grid_search L tr va d rs gs cs = Inr obs
           \<and> length (scores obs) = length gs * length cs
           \<and> length (gees obs) = length gs * length cs
           \<and> length (cees obs) = length gs * length cs
           \<and> (\<forall>i < length gs. \<forall>j < length cs.
                 gees obs ! (i * length cs + j) = gs ! i
               \<and> cees obs ! (i * length cs + j) = real (cs ! j) / d
               \<and> fit_score L tr va rs (gs ! i) (real (cs ! j) / d)
                   = Inr (scores obs ! (i * length cs + j)))"
proof -
  let ?obs = "\<lparr>scores = map (\<lambda>(g, c). the_score L tr va d rs g c) (List.product gs cs),
               gees = map fst (List.product gs cs),
               cees = map (\<lambda>(g, c). real c / d) (List.product gs cs)\<rparr>"
  have run: "grid_search L tr va d rs gs cs = Inr ?obs"
    by (rule grid_search_ok [OF assms])
  have cell: "gees ?obs ! (i * length cs + j) = gs ! i
            \<and> cees ?obs ! (i * length cs + j) = real (cs ! j) / d
            \<and> fit_score L tr va rs (gs ! i) (real (cs ! j) / d)
                = Inr (scores ?obs ! (i * length cs + j))"
    if "i < length gs" "j < length cs" for i j
  proof -
    have lt: "i * length cs + j < length (List.product gs cs)"
      using product_row_major(1) [OF that] by simp
    have at: "List.product gs cs ! (i * length cs + j) = (gs ! i, cs ! j)"
      by (rule product_row_major(2) [OF that])
    have sc: "fit_score L tr va rs (gs ! i) (real (cs ! j) / d)
                = Inr (the_score L tr va d rs (gs ! i) (cs ! j))"
      using that by (intro the_score_fit_score [OF assms]) simp_all
    show ?thesis
      using lt at sc by (simp add: nth_map)
  qed
  show ?thesis
    using run cell by (intro exI [of _ ?obs]) simp
qed

lemma all_fit_recording: "all_fit recording_svc tr d rs gs cs"
  unfolding all_fit_def recording_svc_def svc.select_convs by blast

theorem grid_enumeration_order_witness:
  "all_fit recording_svc [(0, 0)] 100 61 [1, 2] [1, 2, 3]
   \<and> (\<exists>obs. grid_search recording_svc [(0, 0)] [(1, 1)] 100 61 [1, 2] [1, 2, 3] = Inr obs
          \<and> length (scores obs) = 6 \<and> length (gees obs) = 6 \<and> length (cees obs) = 6
          \<and> gees obs ! 4 = 2 \<and> cees obs ! 4 = 2 / 100)"
proof -
  have h: "all_fit recording_svc [(0, 0)] 100 61 [1, 2] [1, 2, 3]"
    by (rule all_fit_recording)
  from grid_enumeration_order [OF h, of "[(1, 1)]"] obtain obs where
    run: "grid_search recording_svc [(0, 0)] [(1, 1)] 100 61 [1, 2] [1, 2, 3] = Inr obs" and
    len: "length (scores obs) = 6" "length (gees obs) = 6" "length (cees obs) = 6" and
    cells: "\<forall>i < length [1, 2 :: nat]. \<forall>j < length [1, 2, 3 :: nat].
              gees obs ! (i * length [1, 2, 3 :: nat] + j) = [1, 2] ! i
            \<and> cees obs ! (i * length [1, 2, 3 :: nat] + j) = real ([1, 2, 3] ! j) / 100
            \<and> fit_score recording_svc [(0, 0)] [(1, 1)] 61 ([1, 2] ! i) (real ([1, 2, 3] ! j) / 100)
                = Inr (scores obs ! (i * length [1, 2, 3 :: nat] + j))"
    by auto
  have "(1::nat) < length [1, 2 :: nat]" "(1::nat) < length [1, 2, 3 :: nat]"
    by simp_all
  with cells have "gees obs ! (1 * length [1, 2, 3 :: nat] + 1) = [1, 2] ! 1
                 \<and> cees obs ! (1 * length [1, 2, 3 :: nat] + 1) = real ([1, 2, 3] ! 1) / 100"
    by blast
  moreover have "1 * length [1, 2, 3 :: nat] + 1 = 4" "[1, 2 :: nat] ! 1 = 2"
    "real ([1, 2, 3] ! 1) = 2"
    by simp_all
  ultimately have "gees obs ! 4 = 2 \<and> cees obs ! 4 = 2 / 100"
    by (simp only:)
  with h run len show ?thesis
    by blast
qed

subsection \<open>Rounding to a double\<close>

text \<open>
  Rounding to a double, for values of 1 and above: the exponent is the position of the
  leading bit of the integer part, the rounded value is within half a unit in the last
  place of the exact one, and an integer below \<open>2 ^ 53\<close> with a small enough excess rounds
  to itself.
\<close>

lemma log2_floor_bounds:
  "1 \<le> m \<Longrightarrow> 0 \<le> log2_floor m \<and> 2 ^ nat (log2_floor m) \<le> m \<and> m < 2 * 2 ^ nat (log2_floor m)"
proof (induction m rule: log2_floor.induct)
  case (1 m)
  show ?case
  proof (cases "m < 2")
    case True
    with "1.prems" have "m = 1" by simp
    then show ?thesis by (simp add: log2_floor.simps [of 1])
  next
    case False
    then have half: "1 \<le> m div 2" by simp
    from "1.IH" [OF False half] have
      ih: "0 \<le> log2_floor (m div 2)" "2 ^ nat (log2_floor (m div 2)) \<le> m div 2"
        "m div 2 < 2 * 2 ^ nat (log2_floor (m div 2))"
      by simp_all
    have e: "log2_floor m = log2_floor (m div 2) + 1"
      using False by (simp add: log2_floor.simps [of m])
    have n: "nat (log2_floor (m div 2) + 1) = Suc (nat (log2_floor (m div 2)))"
      using ih(1) by simp
    show ?thesis
      unfolding e n using ih by auto
  qed
qed

lemma pow2_pos: "0 < pow2 i"
  by (simp add: pow2_def)

lemma pow2_nat: "pow2 (int k) = 2 ^ k"
  by (simp add: pow2_def)

lemma pow2_Suc: "pow2 (i + 1) = 2 * pow2 i"
proof (cases "0 \<le> i")
  case True
  then show ?thesis
    by (simp add: pow2_def nat_add_distrib)
next
  case False
  then have "nat (- i) = Suc (nat (- (i + 1)))"
    by simp
  then show ?thesis
    using False by (auto simp: pow2_def)
qed

lemma pow2_diff: "pow2 (i - int k) = pow2 i / 2 ^ k"
proof (induction k)
  case 0
  then show ?case by simp
next
  case (Suc k)
  have "pow2 (i - int k) = 2 * pow2 (i - int (Suc k))"
    using pow2_Suc [of "i - int (Suc k)"] by (simp add: algebra_simps)
  then show ?case
    using Suc.IH by simp
qed

lemma round_half_even_error: "\<bar>of_int (round_half_even y) - y\<bar> \<le> 1 / 2"
  unfolding round_half_even_def by (auto; linarith)

lemma round_half_even_down:
  assumes "of_int m \<le> y" "y < of_int m + 1 / 2"
  shows "round_half_even y = m"
proof -
  have "\<lfloor>y\<rfloor> = m"
    using assms by linarith
  then show ?thesis
    unfolding round_half_even_def using assms by simp
qed

lemma exponent_bounds:
  assumes "1 \<le> x"
  shows "0 \<le> log2_floor \<lfloor>x\<rfloor>" "pow2 (log2_floor \<lfloor>x\<rfloor>) \<le> x"
    "x < 2 * pow2 (log2_floor \<lfloor>x\<rfloor>)"
proof -
  let ?m = "\<lfloor>x\<rfloor>" and ?e = "log2_floor \<lfloor>x\<rfloor>"
  have m: "1 \<le> ?m"
    using assms by simp
  note b = log2_floor_bounds [OF m]
  show e: "0 \<le> ?e"
    using b by simp
  have p: "pow2 ?e = 2 ^ nat ?e"
    using e by (simp add: pow2_def)
  have "(2::real) ^ nat ?e = of_int (2 ^ nat ?e)"
    by simp
  also have "\<dots> \<le> of_int ?m"
    using b by (intro of_int_le_iff [THEN iffD2]) simp
  also have "\<dots> \<le> x"
    by simp
  finally show "pow2 ?e \<le> x"
    unfolding p .
  have "?m + 1 \<le> 2 * 2 ^ nat ?e"
    using b by simp
  then have "of_int (?m + 1) \<le> (of_int (2 * 2 ^ nat ?e) :: real)"
    by (intro of_int_le_iff [THEN iffD2])
  then have "real_of_int ?m + 1 \<le> 2 * 2 ^ nat ?e"
    by simp
  moreover have "x < real_of_int ?m + 1"
    by linarith
  ultimately show "x < 2 * pow2 ?e"
    unfolding p by linarith
qed

lemma double_normal:
  assumes "1 \<le> x"
  shows "double x = of_int (round_half_even (x / pow2 (log2_floor \<lfloor>x\<rfloor> - 52)))
                      * pow2 (log2_floor \<lfloor>x\<rfloor> - 52)"
  using assms by (simp add: double_def exponent_def)

lemma double_error:
  assumes "1 \<le> x"
  shows "\<bar>double x - x\<bar> \<le> x / 2 ^ 53"
proof -
  let ?u = "pow2 (log2_floor \<lfloor>x\<rfloor> - 52)"
  let ?r = "of_int (round_half_even (x / ?u)) :: real"
  have u: "0 < ?u"
    by (rule pow2_pos)
  have "double x - x = (?r - x / ?u) * ?u"
    unfolding double_normal [OF assms] using u by (simp add: field_simps)
  then have "\<bar>double x - x\<bar> = \<bar>?r - x / ?u\<bar> * ?u"
    using u by (simp add: abs_mult)
  also have "\<dots> \<le> 1 / 2 * ?u"
    using round_half_even_error [of "x / ?u"] u by (intro mult_right_mono) simp_all
  also have "?u = pow2 (log2_floor \<lfloor>x\<rfloor>) / 2 ^ 52"
    using pow2_diff [of "log2_floor \<lfloor>x\<rfloor>" 52] by simp
  also have "1 / 2 * (pow2 (log2_floor \<lfloor>x\<rfloor>) / 2 ^ 52) \<le> 1 / 2 * (x / 2 ^ 52)"
    using exponent_bounds(2) [OF assms] by (simp add: divide_right_mono)
  finally show ?thesis
    by simp
qed

lemma scaled_small:
  fixes d A B C kr :: real
  assumes "d * (4 * C) \<le> kr" "kr < 2 * A" "A * B = C" "0 < B" "0 < C"
  shows "d * B < 1 / 2"
proof -
  have "d * (4 * C) * B \<le> kr * B"
    using assms(1,4) by (intro mult_right_mono) simp_all
  also have "kr * B < 2 * A * B"
    using assms(2,4) by (intro mult_strict_right_mono) simp_all
  also have "2 * A * B = 2 * C"
    using assms(3) by simp
  finally have "(d * B) * (4 * C) < (1 / 2) * (4 * C)"
    by (simp add: algebra_simps)
  moreover have "0 < 4 * C"
    using assms(5) by simp
  ultimately show ?thesis
    by (simp only: mult_less_cancel_right_pos)
qed

lemma double_exact:
  assumes "1 \<le> k" "k < 2 ^ 53" "0 \<le> d" "d * 2 ^ 54 \<le> of_int k"
  shows "double (of_int k + d) = of_int k"
proof -
  let ?x = "of_int k + d :: real"
  have k53: "(of_int k :: real) < 2 ^ 53"
    using assms(2) by (metis of_int_less_iff of_int_numeral of_int_power)
  have d: "d < 1 / 2"
    using assms(4) k53 by simp
  have fl: "\<lfloor>?x\<rfloor> = k"
    using assms(3) d by linarith
  have x1: "1 \<le> ?x"
    using assms(1,3) by simp
  let ?e = "log2_floor k"
  note b = log2_floor_bounds [OF assms(1)]
  have lt53: "(2::int) ^ nat ?e < 2 ^ 53"
    using b assms(2) by linarith
  have "nat ?e < 53"
    by (rule power_less_imp_less_exp [OF _ lt53]) simp
  then have e52: "nat ?e \<le> 52"
    by simp
  define j where "j = 52 - nat ?e"
  have AB: "(2::real) ^ nat ?e * 2 ^ j = 2 ^ 52"
    unfolding j_def using e52 by (simp add: power_add [symmetric])
  have u: "pow2 (?e - 52) = 1 / 2 ^ j"
  proof -
    have "pow2 (?e - 52) = pow2 ?e / 2 ^ 52"
      using pow2_diff [of ?e 52] by simp
    also have "pow2 ?e = 2 ^ nat ?e"
      using b by (simp add: pow2_def)
    finally have "pow2 (?e - 52) = 2 ^ nat ?e / (2 ^ nat ?e * 2 ^ j)"
      by (simp only: AB)
    then show ?thesis
      by simp
  qed
  have q: "?x / pow2 (?e - 52) = of_int (k * 2 ^ j) + d * 2 ^ j"
    unfolding u by (simp add: algebra_simps)
  have kA: "(of_int k :: real) < 2 * 2 ^ nat ?e"
  proof -
    have "of_int k < (of_int (2 * 2 ^ nat ?e) :: real)"
      using b by (intro of_int_less_iff [THEN iffD2]) simp
    then show ?thesis by simp
  qed
  have d4: "d * (4 * 2 ^ 52) \<le> of_int k"
    using assms(4) by simp
  have small: "d * 2 ^ j < 1 / 2"
    by (rule scaled_small [OF d4 kA AB]) simp_all
  have nonneg: "0 \<le> d * 2 ^ j"
    using assms(3) by simp
  have r: "round_half_even (?x / pow2 (?e - 52)) = k * 2 ^ j"
    unfolding q by (rule round_half_even_down) (use small nonneg in simp_all)
  have "double ?x = of_int (k * 2 ^ j) * (1 / 2 ^ j)"
    unfolding double_normal [OF x1] fl by (simp only: u r [unfolded u])
  then show ?thesis
    by simp
qed

lemma double_of_nat:
  assumes "n < 2 ^ 53"
  shows "double (real n) = real n"
proof (cases "n = 0")
  case True
  then show ?thesis by (simp add: double_def)
next
  case False
  have "double (of_int (int n) + 0) = of_int (int n)"
    using assms False by (intro double_exact) simp_all
  then show ?thesis by simp
qed

text \<open>
  The doubles of 0.8 and 0.2, and the floor and ceiling of their rounded products with
  a number of records.
\<close>

lemma double_8_10: "double (8 / 10) = 3602879701896397 / 4503599627370496"
  by code_simp

lemma double_2_10: "double (2 / 10) = 3602879701896397 / 18014398509481984"
  by code_simp

lemma near_integer:
  fixes D X e k :: real
  assumes "\<bar>D - X\<bar> \<le> e" "e \<le> 1 / 16" "k + 1 / 5 \<le> X" "X \<le> k + 4 / 5 + 1 / 32"
  shows "k \<le> D" "D < k + 1" "k < D" "D \<le> k + 1"
  using assms by (simp_all add: abs_le_iff)

lemma floor_double_8_10:
  assumes "5 \<le> n" "n < 2 ^ 49"
  shows "\<lfloor>double (3602879701896397 / 4503599627370496 * real n)\<rfloor> = int (4 * n div 5)"
proof -
  let ?X = "3602879701896397 / 4503599627370496 * real n"
  define k where "k = 4 * n div 5"
  define s where "s = 4 * n mod 5"
  have "5 * k + s = 4 * n"
    unfolding k_def s_def by simp
  then have ks: "5 * real k + real s = 4 * real n"
    by (metis of_nat_add of_nat_mult of_nat_numeral)
  have s4: "s \<le> 4"
    unfolding s_def by simp
  have n49: "real n < 2 ^ 49"
    using assms(2) by (metis of_nat_less_iff of_nat_numeral of_nat_power)
  have n5: "5 \<le> real n"
    using assms(1) by simp
  have X: "?X = 4 * real n / 5 + 4 * real n / 5 / 2 ^ 54"
    by simp
  show ?thesis
  proof (cases "s = 0")
    case True
    have k1: "1 \<le> int k"
      unfolding k_def using assms(1) by simp
    have "real k < 2 ^ 53"
      using ks n49 True by simp
    then have k53: "int k < 2 ^ 53"
      by (metis of_int_less_iff of_int_numeral of_int_of_nat_eq of_int_power)
    have Xk: "?X = of_int (int k) + real k / 2 ^ 54"
      using ks True by (simp add: X)
    have "double (of_int (int k) + real k / 2 ^ 54) = of_int (int k)"
      using k1 k53 by (intro double_exact) simp_all
    then have "double ?X = of_int (int k)"
      by (simp only: Xk)
    then show ?thesis
      unfolding k_def [symmetric] by simp
  next
    case False
    then have s1: "1 \<le> real s"
      by simp
    have s4r: "real s \<le> 4"
      using s4 by simp
    have X1: "1 \<le> ?X"
      using n5 by simp
    have err: "\<bar>double ?X - ?X\<bar> \<le> ?X / 2 ^ 53"
      by (rule double_error [OF X1])
    have Xb: "?X \<le> real k + 4 / 5 + 1 / 32" "real k + 1 / 5 \<le> ?X" "?X / 2 ^ 53 \<le> 1 / 16"
      using ks s1 s4r n49 by (simp_all add: X)
    have "of_int (int k) \<le> double ?X" "double ?X < of_int (int k) + 1"
      using near_integer(1,2) [OF err Xb(3) _ _, of "real k"] Xb(1,2) by simp_all
    then show ?thesis
      unfolding k_def [symmetric] by (rule floor_unique)
  qed
qed

lemma ceiling_double_2_10:
  assumes "5 \<le> n" "n < 2 ^ 49"
  shows "\<lceil>double (3602879701896397 / 18014398509481984 * real n)\<rceil> = int ((n + 4) div 5)"
proof -
  let ?Y = "3602879701896397 / 18014398509481984 * real n"
  define q where "q = n div 5"
  define r where "r = n mod 5"
  have "5 * q + r = n"
    unfolding q_def r_def by simp
  then have qr: "5 * real q + real r = real n"
    by (metis of_nat_add of_nat_mult of_nat_numeral)
  have r4: "r \<le> 4"
    unfolding r_def by simp
  have n49: "real n < 2 ^ 49"
    using assms(2) by (metis of_nat_less_iff of_nat_numeral of_nat_power)
  have n5: "5 \<le> real n"
    using assms(1) by simp
  have Y: "?Y = real n / 5 + real n / 5 / 2 ^ 54"
    by simp
  show ?thesis
  proof (cases "r = 0")
    case True
    have c: "(n + 4) div 5 = q"
      unfolding q_def using True unfolding r_def by presburger
    have q1: "1 \<le> int q"
      unfolding q_def using assms(1) by simp
    have "real q < 2 ^ 53"
      using qr n49 True by simp
    then have q53: "int q < 2 ^ 53"
      by (metis of_int_less_iff of_int_numeral of_int_of_nat_eq of_int_power)
    have Yq: "?Y = of_int (int q) + real q / 2 ^ 54"
      using qr True by (simp add: Y)
    have "double (of_int (int q) + real q / 2 ^ 54) = of_int (int q)"
      using q1 q53 by (intro double_exact) simp_all
    then have "double ?Y = of_int (int q)"
      by (simp only: Yq)
    then show ?thesis
      unfolding c by simp
  next
    case False
    have c: "(n + 4) div 5 = q + 1"
      unfolding q_def using False unfolding r_def by presburger
    have r1: "1 \<le> real r"
      using False by simp
    have r4r: "real r \<le> 4"
      using r4 by simp
    have Y1: "1 \<le> ?Y"
      using n5 by simp
    have err: "\<bar>double ?Y - ?Y\<bar> \<le> ?Y / 2 ^ 53"
      by (rule double_error [OF Y1])
    have Yb: "?Y \<le> real q + 4 / 5 + 1 / 32" "real q + 1 / 5 \<le> ?Y" "?Y / 2 ^ 53 \<le> 1 / 16"
      using qr r1 r4r n49 by (simp_all add: Y)
    have "of_int (int (q + 1)) - 1 < double ?Y" "double ?Y \<le> of_int (int (q + 1))"
      using near_integer(3,4) [OF err Yb(3) _ _, of "real q"] Yb(1,2) by simp_all
    then show ?thesis
      unfolding c by (rule ceiling_unique)
  qed
qed

subsection \<open>Partitioning\<close>

lemma sizes_sum_8_2:
  assumes "n < 2 ^ 49"
  shows "nat \<lfloor>double (double (8 / 10) * double (real n))\<rfloor>
           + nat \<lceil>double (double (2 / 10) * double (real n))\<rceil> = n"
proof -
  have n53: "n < 2 ^ 53"
    using assms by (rule less_trans) simp
  have small: "nat \<lfloor>double (3602879701896397 / 4503599627370496 * real k)\<rfloor>
           + nat \<lceil>double (3602879701896397 / 18014398509481984 * real k)\<rceil> = k"
    if "k \<in> {1, 2, 3, 4}" for k
    using that by (elim insertE emptyE; hypsubst; code_simp)
  consider "n = 0" | "n \<in> {1, 2, 3, 4}" | "5 \<le> n"
    by force
  then have "nat \<lfloor>double (3602879701896397 / 4503599627370496 * real n)\<rfloor>
           + nat \<lceil>double (3602879701896397 / 18014398509481984 * real n)\<rceil> = n"
  proof cases
    case 1
    then show ?thesis by (simp add: double_def)
  next
    case 2
    then show ?thesis by (rule small)
  next
    case 3
    have "4 * n div 5 + (n + 4) div 5 = n"
      by presburger
    then show ?thesis
      unfolding floor_double_8_10 [OF 3 assms] ceiling_double_2_10 [OF 3 assms] by simp
  qed
  then show ?thesis
    unfolding double_8_10 double_2_10 double_of_nat [OF n53] .
qed

lemma validate_None:
  assumes "validate_shuffle_split n t None = Inr (a, b)"
  shows "0 < t" "t < 1" "b = nat \<lceil>double (t * double (real n))\<rceil>" "a = n - b" "a + b = n" "0 < a"
  using assms
  by (auto simp: validate_shuffle_split_def Let_def split: if_splits)

lemma validate_Some:
  assumes "validate_shuffle_split n t (Some u) = Inr (a, b)"
  shows "b = nat \<lceil>double (t * double (real n))\<rceil>" "a = nat \<lfloor>double (u * double (real n))\<rfloor>"
    "a + b \<le> n" "0 < a"
  using assms
  by (auto simp: validate_shuffle_split_def Let_def split: if_splits)

lemma validate_le:
  assumes "validate_shuffle_split n t u = Inr (a, b)"
  shows "a + b \<le> n"
proof (cases u)
  case None
  then show ?thesis using validate_None(5) [of n t a b] assms by simp
next
  case (Some v)
  then show ?thesis using validate_Some(3) [of n t v a b] assms by simp
qed

lemma validate_None_eq:
  "validate_shuffle_split n t None =
     (if split_refused n t then Inl ValueError
      else Inr (n - nat \<lceil>double (t * double (real n))\<rceil>, nat \<lceil>double (t * double (real n))\<rceil>))"
  by (auto simp: validate_shuffle_split_def split_refused_def Let_def)

lemma split_refused_empty: "split_refused 0 t"
  by (simp add: split_refused_def)

lemma good_rng_perm:
  assumes "good_rng R"
  shows "length (fst (permutation R r n)) = n" "distinct (fst (permutation R r n))"
    "set (fst (permutation R r n)) = {0..<n}"
proof -
  have m: "mset (fst (permutation R r n)) = mset [0..<n]"
    using assms by (simp add: good_rng_def)
  show "length (fst (permutation R r n)) = n"
    using mset_eq_length [OF m] by simp
  show "distinct (fst (permutation R r n))"
    using mset_eq_imp_distinct_iff [OF m] by simp
  show "set (fst (permutation R r n)) = {0..<n}"
    using mset_eq_setD [OF m] by simp
qed

lemma mset_select_all:
  assumes "mset perm = mset [0..<length xs]"
  shows "mset (map (nth xs) perm) = mset xs"
proof -
  have "mset (map (nth xs) perm) = image_mset (nth xs) (mset perm)"
    by simp
  also have "\<dots> = mset (map (nth xs) [0..<length xs])"
    by (simp add: assms)
  also have "\<dots> = mset xs"
    by (simp add: map_nth)
  finally show ?thesis .
qed

text \<open>
  A split selects two lists of positions of its input that share no position; when the
  two sizes add up to the size of the input, every position is selected.
\<close>

lemma seeded_split_indices:
  assumes "good_rng R" "seeded_split R xs t u s = Inr (tr, te)"
  shows "\<exists>a b itr ite. validate_shuffle_split (length xs) t u = Inr (a, b)
           \<and> tr = map (nth xs) itr \<and> te = map (nth xs) ite
           \<and> length itr = a \<and> length ite = b
           \<and> distinct (itr @ ite) \<and> set (itr @ ite) \<subseteq> {0..<length xs}
           \<and> (a + b = length xs \<longrightarrow> mset (itr @ ite) = mset [0..<length xs])"
proof -
  let ?perm = "fst (permutation R (RandomState R s) (length xs))"
  from assms(2) obtain a b where
    v: "validate_shuffle_split (length xs) t u = Inr (a, b)" and
    tr: "tr = map (nth xs) (take a (drop b ?perm))" and
    te: "te = map (nth xs) (take b ?perm)"
    by (auto simp: seeded_split_def split: sum.splits prod.splits)
  note p = good_rng_perm [OF assms(1), of "RandomState R s" "length xs"]
  have ab: "a + b \<le> length xs"
    by (rule validate_le [OF v])
  have la: "length (take a (drop b ?perm)) = a" and lb: "length (take b ?perm) = b"
    using ab p(1) by simp_all
  have "set (take b ?perm) \<inter> set (drop b ?perm) = {}"
    by (rule set_take_disj_set_drop_if_distinct [OF p(2)]) simp
  moreover have "set (take a (drop b ?perm)) \<subseteq> set (drop b ?perm)"
    by (rule set_take_subset)
  ultimately have disj: "set (take a (drop b ?perm)) \<inter> set (take b ?perm) = {}"
    by blast
  have d: "distinct (take a (drop b ?perm) @ take b ?perm)"
    using p(2) disj by simp
  have sub: "set (take a (drop b ?perm) @ take b ?perm) \<subseteq> {0..<length xs}"
    using set_take_subset [of a "drop b ?perm"] set_drop_subset [of b ?perm]
      set_take_subset [of b ?perm] p(3) by auto
  have all: "mset (take a (drop b ?perm) @ take b ?perm) = mset [0..<length xs]"
    if "a + b = length xs"
  proof -
    have whole: "take a (drop b ?perm) = drop b ?perm"
      using that p(1) by simp
    have "mset (drop b ?perm @ take b ?perm) = mset (take b ?perm @ drop b ?perm)"
      unfolding mset_append by (rule add.commute)
    also have "\<dots> = mset ?perm"
      by (simp only: append_take_drop_id)
    also have "\<dots> = mset [0..<length xs]"
      using assms(1) by (simp add: good_rng_def)
    finally show ?thesis
      unfolding whole .
  qed
  show ?thesis
    using v tr te la lb d sub all by blast
qed

lemma train_test_split_seeded:
  "train_test_split R g xs t u (Some s) = (seeded_split R xs t u s, g)"
  by (simp add: train_test_split_def seeded_split_def split: sum.splits prod.splits)

lemma partitioner_v1_seeded:
  "partitioner_v1 R g tf vf sf seed data =
     (if double (1 - sf) = 0 then (Inl ZeroDivisionError, g)
      else case seeded_split R data sf None seed of
             Inl e \<Rightarrow> (Inl e, g)
           | Inr (nottest, te) \<Rightarrow>
               (case seeded_split R nottest (double (vf / double (1 - sf))) None seed of
                  Inl e \<Rightarrow> (Inl e, g)
                | Inr (tr, va) \<Rightarrow> (Inr \<lparr>train = tr, valid = va, test = te\<rparr>, g)))"
  by (simp add: partitioner_v1_def train_test_split_seeded Let_def split: sum.splits prod.splits)

lemma partitioner_v2_seeded:
  "partitioner_v2 R g u t seed data =
     (case seeded_split R data t (Some u) seed of
        Inl e \<Rightarrow> (Inl e, g)
      | Inr (tr, te) \<Rightarrow> (Inr \<lparr>train = tr, valid = [], test = te\<rparr>, g))"
  by (simp add: partitioner_v2_def train_test_split_seeded split: sum.splits prod.splits)

lemma partitioner_v1_Inr:
  assumes "fst (partitioner_v1 R g tf vf sf seed data) = Inr P"
  obtains nottest where
    "double (1 - sf) \<noteq> 0"
    "seeded_split R data sf None seed = Inr (nottest, test P)"
    "seeded_split R nottest (double (vf / double (1 - sf))) None seed = Inr (train P, valid P)"
  using assms
  by (auto simp: partitioner_v1_seeded split: if_splits sum.splits prod.splits)

lemma partitioner_v1_cover:
  assumes "good_rng R" "fst (partitioner_v1 R g tf vf sf seed data) = Inr P"
  shows "\<exists>it iv ie. train P = map (nth data) it \<and> valid P = map (nth data) iv
            \<and> test P = map (nth data) ie
            \<and> mset (it @ iv @ ie) = mset [0..<length data]"
    and "length (test P) = nat \<lceil>double (sf * double (real (length data)))\<rceil>"
    and "length (valid P)
           = nat \<lceil>double (double (vf / double (1 - sf))
                    * double (real (length data - length (test P))))\<rceil>"
    and "length (train P) = length data - length (test P) - length (valid P)"
    and "length (train P) + length (valid P) + length (test P) = length data"
proof -
  from assms(2) obtain nottest where
    s1: "seeded_split R data sf None seed = Inr (nottest, test P)" and
    s2: "seeded_split R nottest (double (vf / double (1 - sf))) None seed = Inr (train P, valid P)"
    by (rule partitioner_v1_Inr)
  from seeded_split_indices [OF assms(1) s1] obtain a b inot ie where
    v1: "validate_shuffle_split (length data) sf None = Inr (a, b)" and
    nt: "nottest = map (nth data) inot" and te: "test P = map (nth data) ie" and
    l1: "length inot = a" "length ie = b" and
    sub1: "set (inot @ ie) \<subseteq> {0..<length data}" and
    all1: "a + b = length data \<longrightarrow> mset (inot @ ie) = mset [0..<length data]"
    by blast
  note n1 = validate_None [OF v1]
  have m1: "mset (inot @ ie) = mset [0..<length data]"
    using all1 n1(5) by simp
  from seeded_split_indices [OF assms(1) s2] obtain a' b' jt jv where
    v2: "validate_shuffle_split (length nottest) (double (vf / double (1 - sf))) None = Inr (a', b')" and
    tr: "train P = map (nth nottest) jt" and va: "valid P = map (nth nottest) jv" and
    l2: "length jt = a'" "length jv = b'" and
    sub2: "set (jt @ jv) \<subseteq> {0..<length nottest}" and
    all2: "a' + b' = length nottest \<longrightarrow> mset (jt @ jv) = mset [0..<length nottest]"
    by blast
  note n2 = validate_None [OF v2]
  have m2: "mset (jt @ jv) = mset [0..<length inot]"
    using all2 n2(5) nt by simp
  have ln: "length nottest = length inot"
    using nt by simp
  have tr': "train P = map (nth data) (map (nth inot) jt)"
    unfolding tr nt using sub2 ln by (auto simp: subset_iff)
  have va': "valid P = map (nth data) (map (nth inot) jv)"
    unfolding va nt using sub2 ln by (auto simp: subset_iff)
  have "mset (map (nth inot) jt @ map (nth inot) jv) = mset (map (nth inot) (jt @ jv))"
    by simp
  also have "\<dots> = mset inot"
    by (rule mset_select_all [OF m2])
  finally have e: "mset (map (nth inot) jt @ map (nth inot) jv) = mset inot" .
  have "mset (map (nth inot) jt @ map (nth inot) jv @ ie)
          = mset (map (nth inot) jt @ map (nth inot) jv) + mset ie"
    by (simp only: mset_append add.assoc)
  also have "\<dots> = mset inot + mset ie"
    by (simp only: e)
  also have "\<dots> = mset (inot @ ie)"
    by (simp only: mset_append)
  finally have cover: "mset (map (nth inot) jt @ map (nth inot) jv @ ie) = mset [0..<length data]"
    by (simp only: m1)
  show "\<exists>it iv ie. train P = map (nth data) it \<and> valid P = map (nth data) iv
            \<and> test P = map (nth data) ie
            \<and> mset (it @ iv @ ie) = mset [0..<length data]"
    using tr' va' te cover by blast
  show lt: "length (test P) = nat \<lceil>double (sf * double (real (length data)))\<rceil>"
    using te l1(2) n1(3) by simp
  have lnn: "length nottest = length data - length (test P)"
    using ln l1 n1(4) te by simp
  show lv: "length (valid P)
           = nat \<lceil>double (double (vf / double (1 - sf))
                    * double (real (length data - length (test P))))\<rceil>"
    using va l2(2) n2(3) lnn by simp
  show "length (train P) = length data - length (test P) - length (valid P)"
    using tr va l2 n2(4) lnn by simp
  show "length (train P) + length (valid P) + length (test P) = length data"
    using tr va te l1 l2 n1(5) n2(5) ln by simp
qed

lemma partitioner_v2_cover:
  assumes "good_rng R" "fst (partition_cell_v2 R g data) = Inr P"
  shows "\<exists>it ie. train P = map (nth data) it \<and> test P = map (nth data) ie
            \<and> distinct (it @ ie) \<and> set (it @ ie) \<subseteq> {0..<length data}
            \<and> (length data < 2 ^ 49 \<longrightarrow> mset (it @ ie) = mset [0..<length data])"
    and "valid P = []"
    and "length (test P) = nat \<lceil>double (double (2 / 10) * double (real (length data)))\<rceil>"
    and "length (train P) = nat \<lfloor>double (double (8 / 10) * double (real (length data)))\<rfloor>"
    and "length data < 2 ^ 49 \<Longrightarrow> length (train P) + length (test P) = length data"
proof -
  from assms(2) obtain tr te where
    s: "seeded_split R data (double (2 / 10)) (Some (double (8 / 10))) 21 = Inr (tr, te)" and
    P: "train P = tr" "valid P = []" "test P = te"
    by (auto simp: partition_cell_v2_def partitioner_v2_seeded split: sum.splits prod.splits)
  from seeded_split_indices [OF assms(1) s] obtain a b it ie where
    v: "validate_shuffle_split (length data) (double (2 / 10)) (Some (double (8 / 10))) = Inr (a, b)" and
    tr: "tr = map (nth data) it" and te: "te = map (nth data) ie" and
    l: "length it = a" "length ie = b" and
    d: "distinct (it @ ie)" and sub: "set (it @ ie) \<subseteq> {0..<length data}" and
    all: "a + b = length data \<longrightarrow> mset (it @ ie) = mset [0..<length data]"
    by blast
  note n = validate_Some [OF v]
  have ab: "a + b = length data" if "length data < 2 ^ 49"
    unfolding n(1) n(2) by (rule sizes_sum_8_2 [OF that])
  show "\<exists>it ie. train P = map (nth data) it \<and> test P = map (nth data) ie
            \<and> distinct (it @ ie) \<and> set (it @ ie) \<subseteq> {0..<length data}
            \<and> (length data < 2 ^ 49 \<longrightarrow> mset (it @ ie) = mset [0..<length data])"
    using P tr te d sub all ab by blast
  show "valid P = []" by fact
  show "length (test P) = nat \<lceil>double (double (2 / 10) * double (real (length data)))\<rceil>"
    using P te l n(1) by simp
  show "length (train P) = nat \<lfloor>double (double (8 / 10) * double (real (length data)))\<rfloor>"
    using P tr l n(2) by simp
  show "length (train P) + length (test P) = length data" if "length data < 2 ^ 49"
    using P tr te l ab [OF that] by simp
qed

lemma mset_rotate_eq: "mset (rotate k xs) = mset xs"
proof -
  have "mset (rotate k xs) = mset (take (k mod length xs) xs @ drop (k mod length xs) xs)"
    unfolding rotate_drop_take mset_append by (simp only: add.commute)
  then show ?thesis
    by (simp only: append_take_drop_id)
qed

lemma good_rotating_rng: "good_rng rotating_rng"
  unfolding good_rng_def rotating_rng_def rng.select_convs fst_conv mset_rotate_eq by blast

text \<open>Runs of the partitioning cell on small data sets.\<close>

lemma run7:
  "fst (partition_cell_v1 rotating_rng 0 [0..<7::nat])
     = Inr \<lparr>train = [4, 5, 1, 2], valid = [3], test = [6, 0]\<rparr>"
  by code_simp

lemma spec7:
  "spec_subset_sizes 7 (double (70 / 100)) (double (15 / 100)) (double (15 / 100)) = (5, 1, 1)"
  by code_simp

text \<open>
  Rounding decides sizes. On 100 records \<^verbatim>\<open>adj_valid_frac * 85\<close> is 15.000000000000002 as a
  float, so the validation subset has 16 records and not 15.
\<close>

lemma sizes_100:
  "sizes (fst (partition_cell_v1 rotating_rng 0 [0..<100::nat])) = Inr (69, 16, 15)"
  by code_simp

text \<open>
  On 150 records, the size of the iris data, the subsets have 104, 23 and 23 records in
  variant 1 and 120 and 30 records in variant 2. The notebook's outputs agree: the table
  of variant 1 counts 23 test records and its best validation score is 21/23, and the
  table of variant 2 counts 30 test records.
\<close>

lemma recorded_sizes:
  "sizes (fst (partition_cell_v1 rotating_rng 0 [0..<150::nat])) = Inr (104, 23, 23)"
  "sizes (fst (partition_cell_v2 rotating_rng 0 [0..<150::nat])) = Inr (120, 0, 30)"
  by code_simp+

text \<open>
  Rounding decides refusals too. With fractions 0.1 and 0.8 on 10 records
  \<^verbatim>\<open>adj_valid_frac\<close> is 0.5000000000000001, the second split asks for 2 of 2 records and
  is refused; with fractions 0.39 and 0.22 on 3 records \<^verbatim>\<open>adj_valid_frac\<close> is exactly 0.5
  and the cell returns three subsets of one record.
\<close>

lemma rounded_refusals:
  "sizes (fst (partitioner_v1 rotating_rng 0 (double (1 / 10)) (double (1 / 10)) (double (8 / 10)) 62
            [0..<10::nat])) = Inl ValueError"
  "sizes (fst (partitioner_v1 rotating_rng 0 (double (39 / 100)) (double (39 / 100))
            (double (22 / 100)) 62 [0..<3::nat])) = Inr (1, 1, 1)"
  by code_simp+

lemma partitioner_v1_snd: "snd (partitioner_v1 R g tf vf sf seed data) = g"
  by (simp add: partitioner_v1_seeded split: sum.splits prod.splits)

lemma partitioner_v1_fst:
  "fst (partitioner_v1 R g tf vf sf seed data) = fst (partitioner_v1 R g' tf' vf sf seed data)"
  by (simp add: partitioner_v1_seeded split: sum.splits prod.splits)

lemma partitioner_v2_snd: "snd (partitioner_v2 R g u t seed data) = g"
  by (simp add: partitioner_v2_seeded split: sum.splits prod.splits)

lemma partitioner_v2_fst:
  "fst (partitioner_v2 R g u t seed data) = fst (partitioner_v2 R g' u t seed data)"
  by (simp add: partitioner_v2_seeded split: sum.splits prod.splits)

lemma disjoint_parts:
  assumes "mset (a @ b @ c) = mset [0..<n]"
  shows "set a \<inter> set b = {}" "set a \<inter> set c = {}" "set b \<inter> set c = {}"
proof -
  have "distinct (a @ b @ c)"
    using mset_eq_imp_distinct_iff [OF assms] by simp
  then show "set a \<inter> set b = {}" "set a \<inter> set c = {}" "set b \<inter> set c = {}"
    by auto
qed

lemma mset_selected:
  assumes "mset is = mset [0..<length data]"
  shows "mset (map (nth data) is) = mset data"
  by (rule mset_select_all [OF assms])

text \<open>
  C4, as the notebook has it. When the generator draws permutations and the partitioning
  cell returns, every subset is a selection of positions of the data set and no position
  is selected twice, so the subsets are pairwise disjoint whatever the records are. In
  variant 1 every position is selected: the subsets hold every record exactly once and
  their sizes add up to \<open>N\<close>. The sizes are not roundings of \<open>N * fraction\<close>: the test
  subset has \<open>\<lceil>test_frac * N\<rceil>\<close> records, the validation subset
  \<open>\<lceil>adj_valid_frac * (N - n_test)\<rceil>\<close> with \<open>adj_valid_frac = valid_frac / (1 - test_frac)\<close>,
  and the training subset all the others, where each product, quotient and difference
  is the float operation. In variant 2 the test subset has \<open>\<lceil>0.2 * N\<rceil>\<close> and the training
  subset \<open>\<lfloor>0.8 * N\<rfloor>\<close> records, of the float products, and for fewer than \<open>2 ^ 49\<close>
  records these add up to \<open>N\<close> and every position is selected.
\<close>

theorem partition_coverage:
  assumes "good_rng R"
  shows "(\<forall>P. fst (partitioner_v1 R g train_frac valid_frac test_frac seed data) = Inr P \<longrightarrow>
            (\<exists>it iv ie. train P = map (nth data) it \<and> valid P = map (nth data) iv
                \<and> test P = map (nth data) ie
                \<and> mset (it @ iv @ ie) = mset [0..<length data]
                \<and> set it \<inter> set iv = {} \<and> set it \<inter> set ie = {} \<and> set iv \<inter> set ie = {})
          \<and> mset (train P) + mset (valid P) + mset (test P) = mset data
          \<and> length (train P) + length (valid P) + length (test P) = length data
          \<and> length (test P) = nat \<lceil>double (test_frac * double (real (length data)))\<rceil>
          \<and> length (valid P)
              = nat \<lceil>double (double (valid_frac / double (1 - test_frac))
                       * double (real (length data - length (test P))))\<rceil>
          \<and> length (train P) = length data - length (test P) - length (valid P))
       \<and> (\<forall>P. fst (partition_cell_v2 R g data) = Inr P \<longrightarrow>
            (\<exists>it ie. train P = map (nth data) it \<and> test P = map (nth data) ie
                \<and> distinct it \<and> distinct ie \<and> set it \<inter> set ie = {}
                \<and> (length data < 2 ^ 49 \<longrightarrow> mset (it @ ie) = mset [0..<length data]))
          \<and> valid P = []
          \<and> (length data < 2 ^ 49 \<longrightarrow> length (train P) + length (test P) = length data)
          \<and> length (test P) = nat \<lceil>double (double (2 / 10) * double (real (length data)))\<rceil>
          \<and> length (train P) = nat \<lfloor>double (double (8 / 10) * double (real (length data)))\<rfloor>)"
proof (intro conjI allI impI)
  fix P
  assume run: "fst (partitioner_v1 R g train_frac valid_frac test_frac seed data) = Inr P"
  note c = partitioner_v1_cover [OF assms run]
  from c(1) obtain it iv ie where
    sel: "train P = map (nth data) it" "valid P = map (nth data) iv" "test P = map (nth data) ie" and
    all: "mset (it @ iv @ ie) = mset [0..<length data]"
    by blast
  note d = disjoint_parts [OF all]
  show "\<exists>it iv ie. train P = map (nth data) it \<and> valid P = map (nth data) iv
                \<and> test P = map (nth data) ie
                \<and> mset (it @ iv @ ie) = mset [0..<length data]
                \<and> set it \<inter> set iv = {} \<and> set it \<inter> set ie = {} \<and> set iv \<inter> set ie = {}"
    using sel all d by blast
  have "mset (train P) + mset (valid P) + mset (test P) = mset (map (nth data) (it @ iv @ ie))"
    unfolding sel by (simp add: add.assoc)
  also have "\<dots> = mset data"
    by (rule mset_selected [OF all])
  finally show "mset (train P) + mset (valid P) + mset (test P) = mset data" .
  show "length (train P) + length (valid P) + length (test P) = length data"
    by (rule c(5))
  show "length (test P) = nat \<lceil>double (test_frac * double (real (length data)))\<rceil>"
    by (rule c(2))
  show "length (valid P)
          = nat \<lceil>double (double (valid_frac / double (1 - test_frac))
                   * double (real (length data - length (test P))))\<rceil>"
    by (rule c(3))
  show "length (train P) = length data - length (test P) - length (valid P)"
    by (rule c(4))
next
  fix P
  assume run: "fst (partition_cell_v2 R g data) = Inr P"
  note c = partitioner_v2_cover [OF assms run]
  from c(1) obtain it ie where
    sel: "train P = map (nth data) it" "test P = map (nth data) ie" and
    d: "distinct (it @ ie)" and
    all: "length data < 2 ^ 49 \<longrightarrow> mset (it @ ie) = mset [0..<length data]"
    by blast
  show "\<exists>it ie. train P = map (nth data) it \<and> test P = map (nth data) ie
                \<and> distinct it \<and> distinct ie \<and> set it \<inter> set ie = {}
                \<and> (length data < 2 ^ 49 \<longrightarrow> mset (it @ ie) = mset [0..<length data])"
    using sel d all by auto
  show "valid P = []"
    by (rule c(2))
  show "length (train P) + length (test P) = length data" if "length data < 2 ^ 49"
    by (rule c(5) [OF that])
  show "length (test P) = nat \<lceil>double (double (2 / 10) * double (real (length data)))\<rceil>"
    by (rule c(3))
  show "length (train P) = nat \<lfloor>double (double (8 / 10) * double (real (length data)))\<rfloor>"
    by (rule c(4))
qed

theorem partition_coverage_witness:
  "good_rng rotating_rng
   \<and> fst (partitioner_v1 rotating_rng 0 (double (70 / 100)) (double (15 / 100)) (double (15 / 100)) 62
          [0..<7::nat])
       = Inr \<lparr>train = [4, 5, 1, 2], valid = [3], test = [6, 0]\<rparr>
   \<and> mset [4, 5, 1, 2] + mset [3] + mset [6, 0] = mset [0..<7::nat]
   \<and> length [4, 5, 1, 2 :: nat] + length [3 :: nat] + length [6, 0 :: nat] = length [0..<7::nat]
   \<and> length [6, 0::nat]
       = nat \<lceil>double (double (15 / 100) * double (real (length [0..<7::nat])))\<rceil>"
proof -
  let ?P = "\<lparr>train = [4, 5, 1, 2], valid = [3], test = [6, 0::nat]\<rparr>"
  have run: "fst (partitioner_v1 rotating_rng 0 (double (70 / 100)) (double (15 / 100))
                    (double (15 / 100)) 62 [0..<7::nat]) = Inr ?P"
    using run7 unfolding partition_cell_v1_def .
  note t = partition_coverage [OF good_rotating_rng, where g = 0 and train_frac = "double (70 / 100)"
      and valid_frac = "double (15 / 100)" and test_frac = "double (15 / 100)" and seed = 62
      and data = "[0..<7::nat]"]
  note a = t [THEN conjunct1, THEN spec, THEN mp, OF run]
  have "mset (train ?P) + mset (valid ?P) + mset (test ?P) = mset [0..<7::nat]"
    by (rule a [THEN conjunct2, THEN conjunct1])
  moreover have "length (train ?P) + length (valid ?P) + length (test ?P) = length [0..<7::nat]"
    by (rule a [THEN conjunct2, THEN conjunct2, THEN conjunct1])
  moreover have "length (test ?P)
       = nat \<lceil>double (double (15 / 100) * double (real (length [0..<7::nat])))\<rceil>"
    by (rule a [THEN conjunct2, THEN conjunct2, THEN conjunct2, THEN conjunct1])
  ultimately have "mset [4, 5, 1, 2] + mset [3] + mset [6, 0] = mset [0..<7::nat]
     \<and> length [4, 5, 1, 2 :: nat] + length [3 :: nat] + length [6, 0 :: nat] = length [0..<7::nat]
     \<and> length [6, 0::nat]
         = nat \<lceil>double (double (15 / 100) * double (real (length [0..<7::nat])))\<rceil>"
    by (simp only: partition.select_convs)
  with good_rotating_rng run show ?thesis
    by blast
qed

text \<open>
  With seven records and the notebook's fractions the cell returns subsets of 4, 1 and 2
  records, where rounding \<open>7 * 0.7\<close>, \<open>7 * 0.15\<close> and \<open>7 * 0.15\<close> gives 5, 1 and 1 and
  leaves no remainder.
\<close>

theorem partition_sizes_counterexample:
  "sizes (fst (partition_cell_v1 rotating_rng 0 [0..<7::nat]))
     \<noteq> Inr (spec_subset_sizes 7 (double (70 / 100)) (double (15 / 100)) (double (15 / 100)))"
proof -
  have code: "sizes (fst (partition_cell_v1 rotating_rng 0 [0..<7::nat])) = Inr (4, 1, 2)"
    unfolding run7 by (simp add: sizes_def)
  show ?thesis
    unfolding code spec7 by simp
qed

lemma seeded_split_None_eq:
  assumes "good_rng R"
  shows "split_refused (length xs) t \<Longrightarrow> seeded_split R xs t None s = Inl ValueError"
    and "\<not> split_refused (length xs) t \<Longrightarrow>
           \<exists>tr te. seeded_split R xs t None s = Inr (tr, te)
                 \<and> length tr = length xs - nat \<lceil>double (t * double (real (length xs)))\<rceil>"
proof -
  show "seeded_split R xs t None s = Inl ValueError" if "split_refused (length xs) t"
    using that by (simp add: seeded_split_def validate_None_eq)
  show "\<exists>tr te. seeded_split R xs t None s = Inr (tr, te)
          \<and> length tr = length xs - nat \<lceil>double (t * double (real (length xs)))\<rceil>"
    if "\<not> split_refused (length xs) t"
  proof -
    from that obtain tr te where run: "seeded_split R xs t None s = Inr (tr, te)"
      by (simp add: seeded_split_def validate_None_eq)
    from seeded_split_indices [OF assms run] obtain a b itr where
      v: "validate_shuffle_split (length xs) t None = Inr (a, b)" and
      tr: "tr = map (nth xs) itr" "length itr = a"
      by blast
    note n = validate_None [OF v]
    have "length tr = length xs - nat \<lceil>double (t * double (real (length xs)))\<rceil>"
      using tr n(3,4) by simp
    with run show ?thesis
      by blast
  qed
qed

text \<open>
  C7, as the notebook has it. The partitioning cell of variant 1 makes no check of its
  own and raises neither an \<^verbatim>\<open>InvalidFractionError\<close> nor an \<^verbatim>\<open>EmptyDatasetError\<close>. It fails
  with \<^verbatim>\<open>ZeroDivisionError\<close> when \<^verbatim>\<open>1 - test_frac\<close> is zero as a float, as it is for
  \<^verbatim>\<open>test_frac\<close> 1; otherwise it fails with the library's \<^verbatim>\<open>ValueError\<close> exactly when one of
  its two splits is refused, that is when \<^verbatim>\<open>test_frac\<close> or the float
  \<^verbatim>\<open>valid_frac / (1 - test_frac)\<close> is not strictly between 0 and 1 or when a split would
  leave no training record, as it does on an empty data set; in every other case it
  returns a partition. The sizes that decide a refusal are those of the float products.
  \<^verbatim>\<open>train_frac\<close> plays no part, so the sum of the fractions is never examined.
\<close>

theorem partitioner_errors:
  assumes "good_rng R"
  shows "(double (1 - test_frac) = 0 \<longrightarrow>
            fst (partitioner_v1 R g train_frac valid_frac test_frac seed data)
              = Inl ZeroDivisionError)
       \<and> (test_frac = 1 \<longrightarrow> double (1 - test_frac) = 0)
       \<and> (double (1 - test_frac) \<noteq> 0
            \<and> (split_refused (length data) test_frac
               \<or> split_refused
                    (length data - nat \<lceil>double (test_frac * double (real (length data)))\<rceil>)
                    (double (valid_frac / double (1 - test_frac)))) \<longrightarrow>
            fst (partitioner_v1 R g train_frac valid_frac test_frac seed data) = Inl ValueError)
       \<and> (double (1 - test_frac) \<noteq> 0
            \<and> \<not> split_refused (length data) test_frac
            \<and> \<not> split_refused
                    (length data - nat \<lceil>double (test_frac * double (real (length data)))\<rceil>)
                    (double (valid_frac / double (1 - test_frac))) \<longrightarrow>
            (\<exists>P. fst (partitioner_v1 R g train_frac valid_frac test_frac seed data) = Inr P))
       \<and> (double (1 - test_frac) \<noteq> 0 \<and> length data = 0 \<longrightarrow>
            fst (partitioner_v1 R g train_frac valid_frac test_frac seed data) = Inl ValueError)
       \<and> fst (partitioner_v1 R g train_frac valid_frac test_frac seed data)
           = fst (partitioner_v1 R g other_train_frac valid_frac test_frac seed data)"
proof -
  let ?res = "fst (partitioner_v1 R g train_frac valid_frac test_frac seed data)"
  let ?n1 = "length data - nat \<lceil>double (test_frac * double (real (length data)))\<rceil>"
  let ?adj = "double (valid_frac / double (1 - test_frac))"
  have zero: "?res = Inl ZeroDivisionError" if "double (1 - test_frac) = 0"
    using that by (simp add: partitioner_v1_seeded)
  have one: "double (1 - test_frac) = 0" if "test_frac = 1"
    using that by (simp add: double_def)
  have first: "?res = Inl ValueError"
    if "double (1 - test_frac) \<noteq> 0" "split_refused (length data) test_frac"
    using that seeded_split_None_eq(1) [OF assms that(2), of seed]
    by (simp add: partitioner_v1_seeded)
  have second: "?res = Inl ValueError"
    if "double (1 - test_frac) \<noteq> 0" "\<not> split_refused (length data) test_frac"
      "split_refused ?n1 ?adj"
  proof -
    from seeded_split_None_eq(2) [OF assms that(2), of seed] obtain nottest te where
      s1: "seeded_split R data test_frac None seed = Inr (nottest, te)" and
      len: "length nottest = ?n1"
      by blast
    have "seeded_split R nottest ?adj None seed = Inl ValueError"
      using that(3) len by (intro seeded_split_None_eq(1) [OF assms]) simp
    then show ?thesis
      using that(1) s1 by (simp add: partitioner_v1_seeded)
  qed
  have ok: "\<exists>P. ?res = Inr P"
    if "double (1 - test_frac) \<noteq> 0" "\<not> split_refused (length data) test_frac"
      "\<not> split_refused ?n1 ?adj"
  proof -
    from seeded_split_None_eq(2) [OF assms that(2), of seed] obtain nottest te where
      s1: "seeded_split R data test_frac None seed = Inr (nottest, te)" and
      len: "length nottest = ?n1"
      by blast
    have "\<not> split_refused (length nottest) ?adj"
      using that(3) len by simp
    from seeded_split_None_eq(2) [OF assms this, of seed] obtain tr va where
      "seeded_split R nottest ?adj None seed = Inr (tr, va)"
      by blast
    then show ?thesis
      using that(1) s1 by (simp add: partitioner_v1_seeded)
  qed
  have empty: "?res = Inl ValueError" if "double (1 - test_frac) \<noteq> 0" "length data = 0"
    using first [OF that(1)] that(2) split_refused_empty by simp
  have ignored: "?res = fst (partitioner_v1 R g other_train_frac valid_frac test_frac seed data)"
    by (rule partitioner_v1_fst)
  show ?thesis
    using zero one first second ok empty ignored by blast
qed

lemma notebook_fractions:
  "double (1 - double (15 / 100)) \<noteq> 0"
  "\<not> split_refused 7 (double (15 / 100))"
  "\<not> split_refused (7 - nat \<lceil>double (double (15 / 100) * double (real 7))\<rceil>)
       (double (double (15 / 100) / double (1 - double (15 / 100))))"
  "double (50 / 100) + double (15 / 100) + double (15 / 100) \<noteq> 1"
  by code_simp+

text \<open>
  Fractions 0.5, 0.15 and 0.15 do not add up to 1, and the cell returns a partition.
\<close>

theorem partitioner_errors_counterexample:
  "double (50 / 100) + double (15 / 100) + double (15 / 100) \<noteq> 1
   \<and> fst (partitioner_v1 rotating_rng 0 (double (50 / 100)) (double (15 / 100)) (double (15 / 100))
          62 [0..<7::nat])
       = Inr \<lparr>train = [4, 5, 1, 2], valid = [3], test = [6, 0]\<rparr>"
proof -
  have "fst (partitioner_v1 rotating_rng 0 (double (50 / 100)) (double (15 / 100))
               (double (15 / 100)) 62 [0..<7::nat])
          = fst (partition_cell_v1 rotating_rng 0 [0..<7::nat])"
    unfolding partition_cell_v1_def by (rule partitioner_v1_fst)
  then show ?thesis
    using notebook_fractions(4) run7 by simp
qed

theorem partitioner_errors_witness:
  "good_rng rotating_rng
   \<and> (double (1 - double (15 / 100)) \<noteq> 0 \<and> length ([] :: nat list) = 0)
   \<and> fst (partitioner_v1 rotating_rng 0 (double (70 / 100)) (double (15 / 100))
          (double (15 / 100)) 62 ([] :: nat list))
       = Inl ValueError
   \<and> (\<exists>P. fst (partitioner_v1 rotating_rng 0 (double (70 / 100)) (double (15 / 100))
               (double (15 / 100)) 62 [0..<7::nat])
            = Inr P)
   \<and> fst (partitioner_v1 rotating_rng 0 (double (70 / 100)) (double (15 / 100))
          (double (15 / 100)) 62 [0..<7::nat])
       = fst (partitioner_v1 rotating_rng 0 5 (double (15 / 100)) (double (15 / 100)) 62 [0..<7::nat])
   \<and> fst (partitioner_v1 rotating_rng 0 (double (70 / 100)) (double (15 / 100)) 1 62 [0..<7::nat])
       = Inl ZeroDivisionError"
proof -
  have h1: "double (1 - double (15 / 100)) \<noteq> 0 \<and> length ([] :: nat list) = 0"
    using notebook_fractions(1) by simp
  have h2: "double (1 - double (15 / 100)) \<noteq> 0
       \<and> \<not> split_refused (length [0..<7::nat]) (double (15 / 100))
       \<and> \<not> split_refused
              (length [0..<7::nat]
                 - nat \<lceil>double (double (15 / 100) * double (real (length [0..<7::nat])))\<rceil>)
              (double (double (15 / 100) / double (1 - double (15 / 100))))"
    using notebook_fractions(1,2,3) by simp
  note e = partitioner_errors [OF good_rotating_rng, where g = 0 and train_frac = "double (70 / 100)"
      and valid_frac = "double (15 / 100)" and test_frac = "double (15 / 100)" and seed = 62
      and data = "[] :: nat list"]
  note r = partitioner_errors [OF good_rotating_rng, where g = 0 and train_frac = "double (70 / 100)"
      and valid_frac = "double (15 / 100)" and test_frac = "double (15 / 100)" and seed = 62
      and data = "[0..<7::nat]" and other_train_frac = 5]
  note z = partitioner_errors [OF good_rotating_rng, where g = 0 and train_frac = "double (70 / 100)"
      and valid_frac = "double (15 / 100)" and test_frac = 1 and seed = 62 and data = "[0..<7::nat]"]
  have a: "fst (partitioner_v1 rotating_rng 0 (double (70 / 100)) (double (15 / 100))
          (double (15 / 100)) 62 ([] :: nat list)) = Inl ValueError"
    using e h1 by blast
  have b: "\<exists>P. fst (partitioner_v1 rotating_rng 0 (double (70 / 100)) (double (15 / 100))
               (double (15 / 100)) 62 [0..<7::nat]) = Inr P"
    using r h2 by blast
  have c: "fst (partitioner_v1 rotating_rng 0 (double (70 / 100)) (double (15 / 100))
          (double (15 / 100)) 62 [0..<7::nat])
       = fst (partitioner_v1 rotating_rng 0 5 (double (15 / 100)) (double (15 / 100)) 62 [0..<7::nat])"
    using r by blast
  have d: "fst (partitioner_v1 rotating_rng 0 (double (70 / 100)) (double (15 / 100)) 1 62 [0..<7::nat])
       = Inl ZeroDivisionError"
    using z by blast
  show ?thesis
    using good_rotating_rng h1 a b c d by blast
qed

text \<open>
  C8. The partition is a function of the seed and the data set: it does not depend on
  the state of the ambient generator, and the cell leaves that state as it found it, so
  a second invocation with the same seed and data set returns the same subsets as the
  first. Both variants pass an integer \<^verbatim>\<open>random_state\<close> on every split.
\<close>

theorem partition_determinism:
  "fst (partitioner_v1 R g train_frac valid_frac test_frac seed data)
     = fst (partitioner_v1 R g' train_frac valid_frac test_frac seed data)
   \<and> snd (partitioner_v1 R g train_frac valid_frac test_frac seed data) = g
   \<and> fst (partitioner_v1 R
            (snd (partitioner_v1 R g train_frac valid_frac test_frac seed data))
            train_frac valid_frac test_frac seed data)
       = fst (partitioner_v1 R g train_frac valid_frac test_frac seed data)
   \<and> fst (partitioner_v2 R g train_size test_size seed data)
       = fst (partitioner_v2 R g' train_size test_size seed data)
   \<and> snd (partitioner_v2 R g train_size test_size seed data) = g
   \<and> fst (partitioner_v2 R
            (snd (partitioner_v2 R g train_size test_size seed data))
            train_size test_size seed data)
       = fst (partitioner_v2 R g train_size test_size seed data)"
  by (intro conjI partitioner_v1_fst partitioner_v2_fst partitioner_v1_snd partitioner_v2_snd)

subsection \<open>Selection\<close>

lemma fold_keep_max:
  "fold (\<lambda>x m. if m < x then x else m) ys (y::real) \<in> set (y # ys)
   \<and> (\<forall>x \<in> set (y # ys). x \<le> fold (\<lambda>x m. if m < x then x else m) ys y)"
proof (induction ys arbitrary: y)
  case Nil
  then show ?case by simp
next
  case (Cons z zs)
  show ?case
    using Cons.IH [of "if y < z then z else y"] by (auto split: if_splits)
qed

lemma py_max_nonempty:
  assumes "xs \<noteq> []"
  shows "\<exists>m. py_max xs = Inr m \<and> m \<in> set xs \<and> (\<forall>x \<in> set xs. x \<le> m)"
proof -
  from assms obtain y ys where xs: "xs = y # ys"
    by (cases xs) auto
  show ?thesis
    unfolding xs py_max_def using fold_keep_max [of ys y] by simp
qed

lemma index_Inr:
  "index xs x = Inr i \<Longrightarrow> i < length xs \<and> xs ! i = x \<and> (\<forall>k < i. xs ! k \<noteq> x)"
proof (induction xs arbitrary: i)
  case Nil
  then show ?case by simp
next
  case (Cons y ys)
  show ?case
  proof (cases "y = x")
    case True
    with Cons.prems show ?thesis by simp
  next
    case False
    with Cons.prems obtain i' where i': "index ys x = Inr i'" "i = Suc i'"
      by (auto split: sum.splits)
    from Cons.IH [OF i'(1)] False i'(2) show ?thesis
      by (auto simp: nth_Cons split: nat.splits)
  qed
qed

lemma index_member: "x \<in> set xs \<Longrightarrow> \<exists>i. index xs x = Inr i"
  by (induction xs) auto

text \<open>
  What \<^verbatim>\<open>scores.index(max(scores))\<close> computes on a non-empty list: the first position of
  the maximum. Every score is at most the maximum, and every score before the position
  is strictly smaller.
\<close>

lemma first_maximum:
  assumes "xs \<noteq> []"
  shows "\<exists>m i. py_max xs = Inr m \<and> index xs m = Inr i \<and> i < length xs \<and> xs ! i = m
           \<and> (\<forall>k < length xs. xs ! k \<le> m) \<and> (\<forall>k < i. xs ! k < m)"
proof -
  from py_max_nonempty [OF assms] obtain m where
    m: "py_max xs = Inr m" "m \<in> set xs" "\<forall>x \<in> set xs. x \<le> m"
    by blast
  from index_member [OF m(2)] obtain i where i: "index xs m = Inr i"
    by blast
  note at = index_Inr [OF i]
  have le: "\<forall>k < length xs. xs ! k \<le> m"
    using m(3) by simp
  have "xs ! k < m" if "k < i" for k
  proof -
    have "xs ! k \<le> m" "xs ! k \<noteq> m"
      using that at le by auto
    then show ?thesis by simp
  qed
  with m(1) i at le show ?thesis
    by blast
qed

lemma grid_search_cells:
  assumes "grid_search L tr va d rs gs cs = Inr obs"
  shows "length (scores obs) = length gs * length cs"
    and "length (gees obs) = length gs * length cs"
    and "length (cees obs) = length gs * length cs"
    and "k < length gs * length cs \<Longrightarrow> gees obs ! k = gs ! (k div length cs)"
    and "k < length gs * length cs \<Longrightarrow> cees obs ! k = real (cs ! (k mod length cs)) / d"
proof -
  have "all_fit L tr d rs gs cs"
    using assms by (rule grid_search_Inr)
  from grid_search_ok [OF this, of va] assms have
    obs: "obs = \<lparr>scores = map (\<lambda>(g, c). the_score L tr va d rs g c) (List.product gs cs),
                 gees = map fst (List.product gs cs),
                 cees = map (\<lambda>(g, c). real c / d) (List.product gs cs)\<rparr>"
    by simp
  show "length (scores obs) = length gs * length cs" "length (gees obs) = length gs * length cs"
    "length (cees obs) = length gs * length cs"
    by (simp_all add: obs)
  show "gees obs ! k = gs ! (k div length cs)" if "k < length gs * length cs"
    using that by (simp add: obs product_nth)
  show "cees obs ! k = real (cs ! (k mod length cs)) / d" if "k < length gs * length cs"
    using that by (simp add: obs product_nth)
qed

lemma grid_search_v1_cells:
  assumes "grid_search_v1 L tr va = Inr obs"
  shows "length (scores obs) = 600" "length (gees obs) = 600" "length (cees obs) = 600"
    and "k < 600 \<Longrightarrow> gees obs ! k = 1 + k div 300"
    and "k < 600 \<Longrightarrow> cees obs ! k = real (1 + k mod 300) / 100"
proof -
  note c = grid_search_cells [OF assms [unfolded grid_search_v1_def]]
  show "length (scores obs) = 600" "length (gees obs) = 600" "length (cees obs) = 600"
    using c(1,2,3) by simp_all
  show "gees obs ! k = 1 + k div 300" if "k < 600"
  proof -
    have "k div 300 < 2"
      using that by (simp add: less_mult_imp_div_less)
    then show ?thesis
      using c(4) [of k] that by simp
  qed
  show "cees obs ! k = real (1 + k mod 300) / 100" if "k < 600"
    using c(5) [of k] that by simp
qed

lemma grid_search_v2_cells:
  assumes "grid_search_v2 L tr va = Inr obs"
  shows "length (scores obs) = 900" "length (gees obs) = 900" "length (cees obs) = 900"
    and "k < 900 \<Longrightarrow> gees obs ! k = 1 + k div 30"
    and "k < 900 \<Longrightarrow> cees obs ! k = real (1 + k mod 30) / 10"
proof -
  note c = grid_search_cells [OF assms [unfolded grid_search_v2_def]]
  show "length (scores obs) = 900" "length (gees obs) = 900" "length (cees obs) = 900"
    using c(1,2,3) by simp_all
  show "gees obs ! k = 1 + k div 30" if "k < 900"
  proof -
    have "k div 30 < 30"
      using that by (simp add: less_mult_imp_div_less)
    then show ?thesis
      using c(4) [of k] that by simp
  qed
  show "cees obs ! k = real (1 + k mod 30) / 10" if "k < 900"
    using c(5) [of k] that by simp
qed

lemma selection_cell_Inr:
  assumes "selection_cell k obs = Inr (i, m, g, c)"
  shows "py_max (scores obs) = Inr m" "index (scores obs) m = Inr i"
    "getitem (gees obs) k = Inr g" "getitem (cees obs) k = Inr c"
  using assms by (auto simp: selection_cell_def split: sum.splits)

lemma getitem_Inr: "getitem xs k = Inr x \<longleftrightarrow> k < length xs \<and> xs ! k = x"
  by (auto simp: getitem_def)

lemma retrain_cell_scores:
  "retrain_cell k L (obs\<lparr>scores := s\<rparr>) tr te = retrain_cell k L obs tr te"
  by (simp add: retrain_cell_def split: sum.splits)

lemma point_v1:
  assumes "i < 600" "1 + i div 300 = (1::nat)" "real (1 + i mod 300) / 100 = 118 / 100"
  shows "i = 117"
proof -
  have "real (1 + i mod 300) = 118"
    using assms(3) by simp
  then have "1 + i mod 300 = 118"
    by (metis of_nat_eq_iff of_nat_numeral)
  then have "i mod 300 = 117" "i div 300 = 0"
    using assms(2) by simp_all
  then show ?thesis
    using div_mult_mod_eq [of i 300] by simp
qed

lemma point_v2:
  assumes "i < 900" "1 + i div 30 = (2::nat)" "real (1 + i mod 30) / 10 = 5 / 10"
  shows "i = 34"
proof -
  have "real (1 + i mod 30) = 5"
    using assms(3) by simp
  then have "1 + i mod 30 = 5"
    by (metis of_nat_eq_iff of_nat_numeral)
  then have "i mod 30 = 4" "i div 30 = 1"
    using assms(2) by simp_all
  then show ?thesis
    using div_mult_mod_eq [of i 30] by simp
qed

lemma retrain_v1:
  assumes "grid_search_v1 L tr va = Inr obs"
  shows "gees obs ! 117 = 1" "cees obs ! 117 = 118 / 100"
    and "retrain_cell 117 L obs tr te
           = (case fit L 1 (118 / 100) None tr of
                Inl e \<Rightarrow> Inl e
              | Inr m \<Rightarrow> Inr (m, predict L m (map fst te)))"
proof -
  note c = grid_search_v1_cells [OF assms]
  show g: "gees obs ! 117 = 1" and cc: "cees obs ! 117 = 118 / 100"
    using c(4) [of 117] c(5) [of 117] by simp_all
  have ge: "getitem (gees obs) 117 = Inr 1"
    using c(2) g by (simp add: getitem_def)
  have "getitem (cees obs) 117 = Inr (cees obs ! 117)"
    using c(3) by (simp add: getitem_def)
  then have ce: "getitem (cees obs) 117 = Inr (118 / 100)"
    by (simp only: cc)
  show "retrain_cell 117 L obs tr te
           = (case fit L 1 (118 / 100) None tr of
                Inl e \<Rightarrow> Inl e
              | Inr m \<Rightarrow> Inr (m, predict L m (map fst te)))"
    by (simp add: retrain_cell_def ge ce)
qed

lemma retrain_v2:
  assumes "grid_search_v2 L tr va = Inr obs"
  shows "gees obs ! 34 = 2" "cees obs ! 34 = 5 / 10"
    and "retrain_cell 34 L obs tr te
           = (case fit L 2 (5 / 10) None tr of
                Inl e \<Rightarrow> Inl e
              | Inr m \<Rightarrow> Inr (m, predict L m (map fst te)))"
proof -
  note c = grid_search_v2_cells [OF assms]
  show g: "gees obs ! 34 = 2" and cc: "cees obs ! 34 = 5 / 10"
    using c(4) [of 34] c(5) [of 34] by simp_all
  have ge: "getitem (gees obs) 34 = Inr 2"
    using c(2) g by (simp add: getitem_def)
  have "getitem (cees obs) 34 = Inr (cees obs ! 34)"
    using c(3) by (simp add: getitem_def)
  then have ce: "getitem (cees obs) 34 = Inr (5 / 10)"
    by (simp only: cc)
  show "retrain_cell 34 L obs tr te
           = (case fit L 2 (5 / 10) None tr of
                Inl e \<Rightarrow> Inl e
              | Inr m \<Rightarrow> Inr (m, predict L m (map fst te)))"
    by (simp add: retrain_cell_def ge ce)
qed

lemma selected_v1:
  assumes "grid_search_v1 L tr va = Inr obs" "selection_cell 117 obs = Inr (i, m, g, c)"
  shows "g = 1" "c = 118 / 100" "(gees obs ! i, cees obs ! i) = (g, c) \<longleftrightarrow> i = 117"
proof -
  note cs = grid_search_v1_cells [OF assms(1)]
  note r = retrain_v1(1,2) [OF assms(1)]
  note s = selection_cell_Inr [OF assms(2)]
  show g: "g = 1" and c: "c = 118 / 100"
    using s(3,4) r by (simp_all add: getitem_Inr)
  have i: "i < 600"
    using index_Inr [OF s(2)] cs(1) by simp
  show "(gees obs ! i, cees obs ! i) = (g, c) \<longleftrightarrow> i = 117"
  proof
    assume "(gees obs ! i, cees obs ! i) = (g, c)"
    then have "1 + i div 300 = 1" "real (1 + i mod 300) / 100 = 118 / 100"
      using cs(4) [OF i] cs(5) [OF i] g c by simp_all
    with i show "i = 117"
      by (rule point_v1)
  next
    assume "i = 117"
    then show "(gees obs ! i, cees obs ! i) = (g, c)"
      using r g c by simp
  qed
qed

lemma selected_v2:
  assumes "grid_search_v2 L tr va = Inr obs" "selection_cell 34 obs = Inr (i, m, g, c)"
  shows "g = 2" "c = 5 / 10" "(gees obs ! i, cees obs ! i) = (g, c) \<longleftrightarrow> i = 34"
proof -
  note cs = grid_search_v2_cells [OF assms(1)]
  note r = retrain_v2(1,2) [OF assms(1)]
  note s = selection_cell_Inr [OF assms(2)]
  show g: "g = 2" and c: "c = 5 / 10"
    using s(3,4) r by (simp_all add: getitem_Inr)
  have i: "i < 900"
    using index_Inr [OF s(2)] cs(1) by simp
  show "(gees obs ! i, cees obs ! i) = (g, c) \<longleftrightarrow> i = 34"
  proof
    assume "(gees obs ! i, cees obs ! i) = (g, c)"
    then have "1 + i div 30 = 2" "real (1 + i mod 30) / 10 = 5 / 10"
      using cs(4) [OF i] cs(5) [OF i] g c by simp_all
    with i show "i = 34"
      by (rule point_v2)
  next
    assume "i = 34"
    then show "(gees obs ! i, cees obs ! i) = (g, c)"
      using r g c by simp
  qed
qed

text \<open>
  C9. In both variants the point of the final classifier is read at a literal position
  of \<^verbatim>\<open>gees\<close> and \<^verbatim>\<open>cees\<close>: 117 in variant 1, which is gamma 1 and C 1.18, and 34 in
  variant 2, which is gamma 2 and C 0.5. The retraining cell does not read \<^verbatim>\<open>scores\<close>, so
  its result is the same whatever the scores are. The point it uses is the point at the
  first maximum of the scores exactly when that maximum is at the literal position.
\<close>

theorem hard_coded_position:
  "(\<forall>obs. grid_search_v1 L tr va = Inr obs \<longrightarrow>
       retrain_cell 117 L obs tr te
         = (case fit L 1 (118 / 100) None tr of
              Inl e \<Rightarrow> Inl e
            | Inr m \<Rightarrow> Inr (m, predict L m (map fst te)))
     \<and> (\<forall>s. retrain_cell 117 L (obs\<lparr>scores := s\<rparr>) tr te = retrain_cell 117 L obs tr te)
     \<and> (\<forall>i m g c. selection_cell 117 obs = Inr (i, m, g, c) \<longrightarrow>
           g = 1 \<and> c = 118 / 100 \<and> ((gees obs ! i, cees obs ! i) = (g, c) \<longleftrightarrow> i = 117)))
   \<and> (\<forall>obs. grid_search_v2 L tr va = Inr obs \<longrightarrow>
       retrain_cell 34 L obs tr te
         = (case fit L 2 (5 / 10) None tr of
              Inl e \<Rightarrow> Inl e
            | Inr m \<Rightarrow> Inr (m, predict L m (map fst te)))
     \<and> (\<forall>s. retrain_cell 34 L (obs\<lparr>scores := s\<rparr>) tr te = retrain_cell 34 L obs tr te)
     \<and> (\<forall>i m g c. selection_cell 34 obs = Inr (i, m, g, c) \<longrightarrow>
           g = 2 \<and> c = 5 / 10 \<and> ((gees obs ! i, cees obs ! i) = (g, c) \<longleftrightarrow> i = 34)))"
proof (intro conjI allI impI)
  fix obs
  assume run: "grid_search_v1 L tr va = Inr obs"
  show "retrain_cell 117 L obs tr te
         = (case fit L 1 (118 / 100) None tr of
              Inl e \<Rightarrow> Inl e
            | Inr m \<Rightarrow> Inr (m, predict L m (map fst te)))"
    by (rule retrain_v1(3) [OF run])
  show "retrain_cell 117 L (obs\<lparr>scores := s\<rparr>) tr te = retrain_cell 117 L obs tr te" for s
    by (rule retrain_cell_scores)
  fix i m g c
  assume sel: "selection_cell 117 obs = Inr (i, m, g, c)"
  show "g = 1" "c = 118 / 100" "(gees obs ! i, cees obs ! i) = (g, c) \<longleftrightarrow> i = 117"
    by (rule selected_v1 [OF run sel])+
next
  fix obs
  assume run: "grid_search_v2 L tr va = Inr obs"
  show "retrain_cell 34 L obs tr te
         = (case fit L 2 (5 / 10) None tr of
              Inl e \<Rightarrow> Inl e
            | Inr m \<Rightarrow> Inr (m, predict L m (map fst te)))"
    by (rule retrain_v2(3) [OF run])
  show "retrain_cell 34 L (obs\<lparr>scores := s\<rparr>) tr te = retrain_cell 34 L obs tr te" for s
    by (rule retrain_cell_scores)
  fix i m g c
  assume sel: "selection_cell 34 obs = Inr (i, m, g, c)"
  show "g = 2" "c = 5 / 10" "(gees obs ! i, cees obs ! i) = (g, c) \<longleftrightarrow> i = 34"
    by (rule selected_v2 [OF run sel])+
qed

lemma grid_search_recording:
  "\<exists>obs. grid_search recording_svc tr va d rs gs cs = Inr obs
         \<and> (\<forall>k < length (scores obs). scores obs ! k = 1)"
proof -
  have one: "the_score recording_svc tr va d rs g c = 1" for g c
    by (simp add: the_score_def recording_svc_def)
  show ?thesis
    unfolding grid_search_ok [OF all_fit_recording] by (simp add: one split_def)
qed

lemma all_ones_first:
  assumes "xs \<noteq> []" "\<forall>k < length xs. xs ! k = (1::real)"
  shows "py_max xs = Inr 1" "index xs 1 = Inr 0"
proof -
  from assms(1) obtain y ys where xs: "xs = y # ys"
    by (cases xs) auto
  have "y = 1"
    using assms(2) [rule_format, of 0] xs by simp
  then show "index xs 1 = Inr 0"
    by (simp add: xs)
  from py_max_nonempty [OF assms(1)] obtain m where m: "py_max xs = Inr m" "m \<in> set xs"
    by blast
  from m(2) assms(2) have "m = 1"
    by (auto simp: in_set_conv_nth)
  with m(1) show "py_max xs = Inr 1"
    by simp
qed

lemma select_recording_v1:
  "\<exists>obs. grid_search_v1 recording_svc tr va = Inr obs
         \<and> selection_cell 117 obs = Inr (0, 1, 1, 118 / 100)
         \<and> (gees obs ! 0, cees obs ! 0) = (1, 1 / 100)"
proof -
  from grid_search_recording [of tr va 100 61 "[1..<3]" "[1..<301]"] obtain obs where
    run: "grid_search_v1 recording_svc tr va = Inr obs" and
    ones: "\<forall>k < length (scores obs). scores obs ! k = 1"
    unfolding grid_search_v1_def by blast
  note c = grid_search_v1_cells [OF run]
  note r = retrain_v1(1,2) [OF run]
  have ne: "scores obs \<noteq> []"
    using c(1) by auto
  note f = all_ones_first [OF ne ones]
  have ge: "getitem (gees obs) 117 = Inr 1"
    using c(2) r(1) by (simp add: getitem_def)
  have "getitem (cees obs) 117 = Inr (cees obs ! 117)"
    using c(3) by (simp add: getitem_def)
  then have ce: "getitem (cees obs) 117 = Inr (118 / 100)"
    by (simp only: r(2))
  have sel: "selection_cell 117 obs = Inr (0, 1, 1, 118 / 100)"
    by (simp add: selection_cell_def f ge ce)
  have "(gees obs ! 0, cees obs ! 0) = (1, 1 / 100)"
    using c(4) [of 0] c(5) [of 0] by simp
  with run sel show ?thesis
    by blast
qed

lemma select_recording_v2:
  "\<exists>obs. grid_search_v2 recording_svc tr va = Inr obs
         \<and> selection_cell 34 obs = Inr (0, 1, 2, 5 / 10)
         \<and> (gees obs ! 0, cees obs ! 0) = (1, 1 / 10)"
proof -
  from grid_search_recording [of tr va 10 21 "[1..<31]" "[1..<31]"] obtain obs where
    run: "grid_search_v2 recording_svc tr va = Inr obs" and
    ones: "\<forall>k < length (scores obs). scores obs ! k = 1"
    unfolding grid_search_v2_def by blast
  note c = grid_search_v2_cells [OF run]
  note r = retrain_v2(1,2) [OF run]
  have ne: "scores obs \<noteq> []"
    using c(1) by auto
  note f = all_ones_first [OF ne ones]
  have ge: "getitem (gees obs) 34 = Inr 2"
    using c(2) r(1) by (simp add: getitem_def)
  have "getitem (cees obs) 34 = Inr (cees obs ! 34)"
    using c(3) by (simp add: getitem_def)
  then have ce: "getitem (cees obs) 34 = Inr (5 / 10)"
    by (simp only: r(2))
  have sel: "selection_cell 34 obs = Inr (0, 1, 2, 5 / 10)"
    by (simp add: selection_cell_def f ge ce)
  have "(gees obs ! 0, cees obs ! 0) = (1, 1 / 10)"
    using c(4) [of 0] c(5) [of 0] by simp
  with run sel show ?thesis
    by blast
qed

theorem hard_coded_position_witness:
  "(\<exists>obs. grid_search_v1 recording_svc seven [(3, 0)] = Inr obs
        \<and> selection_cell 117 obs = Inr (0, 1, 1, 118 / 100)
        \<and> retrain_cell 117 recording_svc obs seven [(6, 1)]
            = Inr ((1, 118 / 100, None, seven), [0])
        \<and> (gees obs ! 0, cees obs ! 0) \<noteq> (1, 118 / 100))
   \<and> (\<exists>obs. grid_search_v2 recording_svc seven [(3, 0)] = Inr obs
        \<and> selection_cell 34 obs = Inr (0, 1, 2, 5 / 10)
        \<and> retrain_cell 34 recording_svc obs seven [(6, 1)]
            = Inr ((2, 5 / 10, None, seven), [0])
        \<and> (gees obs ! 0, cees obs ! 0) \<noteq> (2, 5 / 10))"
proof -
  note h = hard_coded_position [of recording_svc seven "[(3, 0)]" "[(6, 1)]"]
  from select_recording_v1 [of seven "[(3, 0)]"] obtain obs1 where
    run1: "grid_search_v1 recording_svc seven [(3, 0)] = Inr obs1" and
    sel1: "selection_cell 117 obs1 = Inr (0, 1, 1, 118 / 100)"
    by blast
  note h1 = h [THEN conjunct1, THEN spec, THEN mp, OF run1]
  note r1 = h1 [THEN conjunct1]
  note p1 = h1 [THEN conjunct2, THEN conjunct2]
  from p1 sel1 have "(gees obs1 ! 0, cees obs1 ! 0) = (1, 118 / 100) \<longleftrightarrow> (0::nat) = 117"
    by blast
  then have n1: "(gees obs1 ! 0, cees obs1 ! 0) \<noteq> (1, 118 / 100)"
    by simp
  have f1: "retrain_cell 117 recording_svc obs1 seven [(6, 1)]
              = Inr ((1, 118 / 100, None, seven), [0])"
    unfolding r1 by (simp add: recording_svc_def)
  from select_recording_v2 [of seven "[(3, 0)]"] obtain obs2 where
    run2: "grid_search_v2 recording_svc seven [(3, 0)] = Inr obs2" and
    sel2: "selection_cell 34 obs2 = Inr (0, 1, 2, 5 / 10)"
    by blast
  note h2 = h [THEN conjunct2, THEN spec, THEN mp, OF run2]
  note r2 = h2 [THEN conjunct1]
  note p2 = h2 [THEN conjunct2, THEN conjunct2]
  from p2 sel2 have "(gees obs2 ! 0, cees obs2 ! 0) = (2, 5 / 10) \<longleftrightarrow> (0::nat) = 34"
    by blast
  then have n2: "(gees obs2 ! 0, cees obs2 ! 0) \<noteq> (2, 5 / 10)"
    by simp
  have f2: "retrain_cell 34 recording_svc obs2 seven [(6, 1)]
              = Inr ((2, 5 / 10, None, seven), [0])"
    unfolding r2 by (simp add: recording_svc_def)
  from run1 sel1 f1 n1 run2 sel2 f2 n2 show ?thesis
    by blast
qed

text \<open>
  C2 at a run in which every grid point scores 1. The first maximum is at position 0,
  whose point is gamma 1 and C 0.01 (variant 2: gamma 1 and C 0.1), and the cell reads
  gamma 1 and C 1.18 (variant 2: gamma 2 and C 0.5).
\<close>

theorem selection_reads_fixed_position:
  "select_v1 recording_svc seven [(3, 0)] = Inr (0, 1, 1, 118 / 100)
   \<and> map_sum id (\<lambda>obs. (gees obs ! 0, cees obs ! 0)) (grid_search_v1 recording_svc seven [(3, 0)])
       = Inr (1, 1 / 100)
   \<and> select_v2 recording_svc seven [(3, 0)] = Inr (0, 1, 2, 5 / 10)
   \<and> map_sum id (\<lambda>obs. (gees obs ! 0, cees obs ! 0)) (grid_search_v2 recording_svc seven [(3, 0)])
       = Inr (1, 1 / 10)"
proof -
  from select_recording_v1 [of seven "[(3, 0)]"] obtain obs1 where
    "grid_search_v1 recording_svc seven [(3, 0)] = Inr obs1"
    "selection_cell 117 obs1 = Inr (0, 1, 1, 118 / 100)"
    "(gees obs1 ! 0, cees obs1 ! 0) = (1, 1 / 100)"
    by blast
  then have v1: "select_v1 recording_svc seven [(3, 0)] = Inr (0, 1, 1, 118 / 100)"
    "map_sum id (\<lambda>obs. (gees obs ! 0, cees obs ! 0)) (grid_search_v1 recording_svc seven [(3, 0)])
       = Inr (1, 1 / 100)"
    by (simp_all add: select_v1_def)
  from select_recording_v2 [of seven "[(3, 0)]"] obtain obs2 where
    "grid_search_v2 recording_svc seven [(3, 0)] = Inr obs2"
    "selection_cell 34 obs2 = Inr (0, 1, 2, 5 / 10)"
    "(gees obs2 ! 0, cees obs2 ! 0) = (1, 1 / 10)"
    by blast
  then have v2: "select_v2 recording_svc seven [(3, 0)] = Inr (0, 1, 2, 5 / 10)"
    "map_sum id (\<lambda>obs. (gees obs ! 0, cees obs ! 0)) (grid_search_v2 recording_svc seven [(3, 0)])
       = Inr (1, 1 / 10)"
    by (simp_all add: select_v2_def)
  from v1 v2 show ?thesis
    by blast
qed

subsection \<open>Reporting\<close>

lemma label_loop_length [simp]:
  "length (label_loop labels n js cl) = length cl"
  by (induction js arbitrary: cl) simp_all

lemma label_loop_unassigned:
  assumes "labels ! j \<notin> {0, 1, 2}"
  shows "label_loop labels n js cl ! j = cl ! j"
  using assms
proof (induction js arbitrary: cl)
  case Nil
  then show ?case by simp
next
  case (Cons k ks)
  have "k \<noteq> j" if "labels ! k \<in> {0, 1, 2}"
    using that Cons.prems by auto
  then show ?case
    using Cons.IH [OF Cons.prems] by auto
qed

lemma label_names_length [simp]: "length (label_names mem labels) = length labels"
  by (simp add: label_names_def chararray_def)

lemma label_names_unassigned:
  assumes "j < length labels" "labels ! j \<notin> {0, 1, 2}"
  shows "label_names mem labels ! j = chararray mem (length labels) (length labels) ! j"
    and "label_names mem labels ! j = take (length labels) (mem j)"
proof -
  show a: "label_names mem labels ! j = chararray mem (length labels) (length labels) ! j"
    unfolding label_names_def by (rule label_loop_unassigned [OF assms(2)])
  show "label_names mem labels ! j = take (length labels) (mem j)"
    unfolding a using assms(1) by (simp add: chararray_def)
qed

lemma count_list_card:
  "count_list xs x = card {j. j < length xs \<and> xs ! j = x}"
proof -
  have "count_list xs x = length (filter ((=) x) xs)"
    by (rule count_list_eq_length_filter)
  also have "\<dots> = card {j. j < length xs \<and> x = xs ! j}"
    by (rule length_filter_conv_card)
  also have "{j. j < length xs \<and> x = xs ! j} = {j. j < length xs \<and> xs ! j = x}"
    by auto
  finally show ?thesis .
qed

lemma crosstab_Inr:
  assumes "length ps = length cs"
  shows "crosstab ps cs =
           Inr \<lparr>row_labels = sort (remdups ps),
                col_labels = sort (remdups cs),
                cells = map (\<lambda>r. map (\<lambda>c. count_list (zip ps cs) (r, c)) (sort (remdups cs)))
                          (sort (remdups ps))\<rparr>"
  using assms by (simp add: crosstab_def Let_def)

lemma crosstab_total:
  assumes "length ps = length cs" "crosstab ps cs = Inr t"
  shows "total t = length ps"
proof -
  let ?Z = "zip ps cs"
  let ?rows = "sort (remdups ps)" and ?cols = "sort (remdups cs)"
  have t: "cells t = map (\<lambda>r. map (\<lambda>c. count_list ?Z (r, c)) ?cols) ?rows"
    using assms(2) unfolding crosstab_Inr [OF assms(1)] by auto
  have row: "sum_list (map (\<lambda>c. count_list ?Z (r, c)) ?cols) = (\<Sum>c \<in> set cs. count_list ?Z (r, c))"
    for r
    by (subst sum_list_distinct_conv_sum_set) simp_all
  have "total t = sum_list (map (\<lambda>r. sum_list (map (\<lambda>c. count_list ?Z (r, c)) ?cols)) ?rows)"
    by (simp add: total_def t comp_def)
  also have "\<dots> = (\<Sum>r \<in> set ps. \<Sum>c \<in> set cs. count_list ?Z (r, c))"
    by (subst sum_list_distinct_conv_sum_set) (simp_all add: row)
  also have "\<dots> = sum (count_list ?Z) (set ps \<times> set cs)"
    by (simp add: sum.cartesian_product)
  also have "\<dots> = length ?Z"
    by (rule sum_count_set) (auto dest: set_zip_leftD set_zip_rightD)
  finally show ?thesis
    using assms(1) by simp
qed

lemma crosstab_cell:
  assumes "length ps = length cs" "crosstab ps cs = Inr t"
  shows "set (row_labels t) = set ps" "set (col_labels t) = set cs"
    "distinct (row_labels t)" "distinct (col_labels t)"
    and "a < length (row_labels t) \<Longrightarrow> b < length (col_labels t) \<Longrightarrow>
           cells t ! a ! b
             = card {j. j < length ps \<and> ps ! j = row_labels t ! a \<and> cs ! j = col_labels t ! b}"
proof -
  let ?Z = "zip ps cs"
  let ?rows = "sort (remdups ps)" and ?cols = "sort (remdups cs)"
  have t: "row_labels t = ?rows" "col_labels t = ?cols"
    "cells t = map (\<lambda>r. map (\<lambda>c. count_list ?Z (r, c)) ?cols) ?rows"
    using assms(2) unfolding crosstab_Inr [OF assms(1)] by auto
  show "set (row_labels t) = set ps" "set (col_labels t) = set cs"
    "distinct (row_labels t)" "distinct (col_labels t)"
    by (simp_all add: t)
  show "cells t ! a ! b
          = card {j. j < length ps \<and> ps ! j = row_labels t ! a \<and> cs ! j = col_labels t ! b}"
    if "a < length (row_labels t)" "b < length (col_labels t)"
  proof -
    have "cells t ! a ! b = count_list ?Z (row_labels t ! a, col_labels t ! b)"
      using that by (simp add: t)
    also have "\<dots> = card {j. j < length ?Z \<and> ?Z ! j = (row_labels t ! a, col_labels t ! b)}"
      by (rule count_list_card)
    also have "{j. j < length ?Z \<and> ?Z ! j = (row_labels t ! a, col_labels t ! b)}
                 = {j. j < length ps \<and> ps ! j = row_labels t ! a \<and> cs ! j = col_labels t ! b}"
      using assms(1) by auto
    finally show ?thesis .
  qed
qed

text \<open>
  C5. For predicted and true labels of the same length \<open>M\<close> the reporter returns a table
  whose cells add up to \<open>M\<close>. Row labels are the distinct predictions and column labels
  the distinct class names, and the cell of a row and a column counts the records with
  that prediction and that class name, so every record is counted in exactly one cell.
\<close>

theorem confusion_table_conservation:
  assumes "length best_all_predictions = length class_test_all"
  shows "\<exists>t. result_reporter mem best_all_predictions class_test_all = Inr t
           \<and> total t = length class_test_all
           \<and> distinct (row_labels t) \<and> set (row_labels t) = set best_all_predictions
           \<and> distinct (col_labels t) \<and> set (col_labels t) = set (label_names mem class_test_all)
           \<and> (\<forall>a < length (row_labels t). \<forall>b < length (col_labels t).
                 cells t ! a ! b
                   = card {j. j < length class_test_all
                              \<and> best_all_predictions ! j = row_labels t ! a
                              \<and> label_names mem class_test_all ! j = col_labels t ! b})"
proof -
  let ?names = "label_names mem class_test_all"
  have len: "length best_all_predictions = length ?names"
    using assms by simp
  from crosstab_Inr [OF len] obtain t where t: "crosstab best_all_predictions ?names = Inr t"
    by blast
  note c = crosstab_cell [OF len t]
  have "total t = length class_test_all"
    using crosstab_total [OF len t] assms by simp
  moreover have "\<forall>a < length (row_labels t). \<forall>b < length (col_labels t).
                 cells t ! a ! b
                   = card {j. j < length class_test_all
                              \<and> best_all_predictions ! j = row_labels t ! a
                              \<and> ?names ! j = col_labels t ! b}"
    using c(5) assms by simp
  ultimately show ?thesis
    using t c(1-4) unfolding result_reporter_def by blast
qed

theorem confusion_table_conservation_witness:
  "length [0, 0, 1, 2, 2 :: int] = length [0, 0, 1, 1, 2 :: int]
   \<and> (\<exists>t. result_reporter (\<lambda>j. []) [0, 0, 1, 2, 2] [0, 0, 1, 1, 2] = Inr t \<and> total t = 5)"
proof -
  have h: "length [0, 0, 1, 2, 2 :: int] = length [0, 0, 1, 1, 2 :: int]"
    by simp
  from confusion_table_conservation [OF h, of "\<lambda>j. []"] obtain t where
    "result_reporter (\<lambda>j. []) [0, 0, 1, 2, 2] [0, 0, 1, 1, 2] = Inr t"
    "total t = length [0, 0, 1, 1, 2 :: int]"
    by blast
  then have "\<exists>t. result_reporter (\<lambda>j. []) [0, 0, 1, 2, 2] [0, 0, 1, 1, 2] = Inr t \<and> total t = 5"
    by simp
  with h show ?thesis
    by blast
qed

text \<open>
  C6, as the notebook has it. No label makes the reporter fail: whenever predictions
  and true labels have the same length it returns a table, whatever the label values
  are. Its only failure is the \<^verbatim>\<open>ValueError\<close> of the data frame on columns of different
  lengths.
\<close>

theorem reporter_accepts_every_label:
  "(length best_all_predictions = length class_test_all \<longrightarrow>
      (\<exists>t. result_reporter mem best_all_predictions class_test_all = Inr t))
   \<and> (length best_all_predictions \<noteq> length class_test_all \<longrightarrow>
      result_reporter mem best_all_predictions class_test_all = Inl ValueError)"
  by (simp add: result_reporter_def crosstab_def Let_def)

theorem reporter_accepts_every_label_witness:
  "length [3 :: int] = length [7 :: int]
   \<and> (\<exists>t. result_reporter (\<lambda>j. []) [3] [7] = Inr t)
   \<and> length [0 :: int] \<noteq> length [0, 1 :: int]
   \<and> result_reporter (\<lambda>j. []) [0] [0, 1] = Inl ValueError"
proof -
  have h1: "length [3 :: int] = length [7 :: int]"
    and h2: "length [0 :: int] \<noteq> length [0, 1 :: int]"
    by simp_all
  from reporter_accepts_every_label [of "[3]" "[7]" "\<lambda>j. []"] h1
  have a: "\<exists>t. result_reporter (\<lambda>j. []) [3] [7] = Inr t"
    by blast
  from reporter_accepts_every_label [of "[0]" "[0, 1]" "\<lambda>j. []"] h2
  have b: "result_reporter (\<lambda>j. []) [0] [0, 1] = Inl ValueError"
    by blast
  from h1 a h2 b show ?thesis
    by blast
qed

text \<open>
  A true label 3 has no class name, and the reporter returns a table.
\<close>

theorem unknown_label_counterexample:
  "result_reporter (\<lambda>j. []) [3] [3] = Inr \<lparr>row_labels = [3], col_labels = [[]], cells = [[1]]\<rparr>"
  by code_simp

text \<open>
  C10, as the notebook has it. For a true label outside 0, 1 and 2 no branch of the chain
  assigns the item and no error is raised: the item stays as the array was allocated,
  which is the first \<open>itemsize\<close> characters of what the memory held and the empty string
  only when that was empty. The record is counted in the column of that leftover value,
  in the row of its prediction. The cell is the same in both variants.
\<close>

theorem unnamed_label_left_unassigned:
  assumes "length best_all_predictions = length class_test_all"
    and "j < length class_test_all"
    and "class_test_all ! j \<notin> {0, 1, 2}"
  shows "label_names mem class_test_all ! j
           = chararray mem (length class_test_all) (length class_test_all) ! j
       \<and> label_names mem class_test_all ! j = take (length class_test_all) (mem j)
       \<and> (mem j = [] \<longrightarrow> label_names mem class_test_all ! j = [])
       \<and> (\<exists>t. result_reporter mem best_all_predictions class_test_all = Inr t
             \<and> (\<exists>a b. a < length (row_labels t) \<and> b < length (col_labels t)
                     \<and> row_labels t ! a = best_all_predictions ! j
                     \<and> col_labels t ! b = label_names mem class_test_all ! j
                     \<and> 0 < cells t ! a ! b))"
proof -
  let ?names = "label_names mem class_test_all"
  note u = label_names_unassigned [OF assms(2,3), of mem]
  have empty: "?names ! j = []" if "mem j = []"
    using u(2) that by simp
  have len: "length best_all_predictions = length ?names"
    using assms(1) by simp
  from crosstab_Inr [OF len] obtain t where t: "crosstab best_all_predictions ?names = Inr t"
    by blast
  note c = crosstab_cell [OF len t]
  have "best_all_predictions ! j \<in> set (row_labels t)"
    using c(1) assms(1,2) by simp
  then obtain a where a: "a < length (row_labels t)" "row_labels t ! a = best_all_predictions ! j"
    by (auto simp: in_set_conv_nth)
  have "?names ! j \<in> set (col_labels t)"
    using c(2) assms(2) by (metis label_names_length nth_mem)
  then obtain b where b: "b < length (col_labels t)" "col_labels t ! b = ?names ! j"
    by (auto simp: in_set_conv_nth)
  let ?S = "{i. i < length best_all_predictions
                \<and> best_all_predictions ! i = row_labels t ! a \<and> ?names ! i = col_labels t ! b}"
  have "j \<in> ?S"
    using assms(1,2) a(2) b(2) by simp
  moreover have "finite ?S"
    by simp
  ultimately have "0 < card ?S"
    by (metis card_gt_0_iff empty_iff)
  then have "0 < cells t ! a ! b"
    using c(5) [OF a(1) b(1)] by simp
  with t a b u empty show ?thesis
    unfolding result_reporter_def by blast
qed

theorem unnamed_label_left_unassigned_witness:
  "length [0, 2 :: int] = length [0, 7 :: int] \<and> (1::nat) < length [0, 7 :: int]
   \<and> [0, 7 :: int] ! 1 \<notin> {0, 1, 2} \<and> (\<lambda>j::nat. []) 1 = ([] :: string)
   \<and> label_names (\<lambda>j. []) [0, 7] ! 1 = []
   \<and> (\<exists>t. result_reporter (\<lambda>j. []) [0, 2] [0, 7] = Inr t
         \<and> (\<exists>a b. a < length (row_labels t) \<and> b < length (col_labels t)
                 \<and> row_labels t ! a = 2 \<and> col_labels t ! b = [] \<and> 0 < cells t ! a ! b))"
proof -
  have h: "length [0, 2 :: int] = length [0, 7 :: int]" "(1::nat) < length [0, 7 :: int]"
    "[0, 7 :: int] ! 1 \<notin> {0, 1, 2}"
    and m: "(\<lambda>j::nat. []) 1 = ([] :: string)"
    by simp_all
  note t = unnamed_label_left_unassigned [OF h, of "\<lambda>j. []"]
  have e: "label_names (\<lambda>j. []) [0, 7] ! 1 = []"
    using t m by blast
  from t have
    "\<exists>t. result_reporter (\<lambda>j. []) [0, 2] [0, 7] = Inr t
         \<and> (\<exists>a b. a < length (row_labels t) \<and> b < length (col_labels t)
                 \<and> row_labels t ! a = [0, 2] ! 1
                 \<and> col_labels t ! b = label_names (\<lambda>j. []) [0, 7] ! 1 \<and> 0 < cells t ! a ! b)"
    by blast
  then have
    "\<exists>t. result_reporter (\<lambda>j. []) [0, 2] [0, 7] = Inr t
         \<and> (\<exists>a b. a < length (row_labels t) \<and> b < length (col_labels t)
                 \<and> row_labels t ! a = 2 \<and> col_labels t ! b = [] \<and> 0 < cells t ! a ! b)"
    unfolding e by simp
  with h m e show ?thesis
    by blast
qed

text \<open>
  When the allocated items hold other characters, the item of a true label 7 is not the
  empty string and the table has no column for the empty string.
\<close>

theorem leftover_item_counterexample:
  "label_names (\<lambda>j. ''garbage'') [0, 7] = [''se'', ''ga'']
   \<and> result_reporter (\<lambda>j. ''garbage'') [0, 2] [0, 7]
       = Inr \<lparr>row_labels = [0, 2], col_labels = [''ga'', ''se''], cells = [[0, 1], [1, 0]]\<rparr>"
  by code_simp

subsection \<open>From partitioning to the table\<close>

lemma retrain_cell_Inr:
  assumes "retrain_cell k L obs tr te = Inr (m, preds)"
  shows "\<exists>\<gamma> c. fit L \<gamma> c None tr = Inr m" "preds = predict L m (map fst te)"
  using assms by (auto simp: retrain_cell_def split: sum.splits)

lemma retrained_v1_Inr:
  assumes "retrained_v1 R g L data = Inr (P, m, preds)"
  shows "fst (partition_cell_v1 R g data) = Inr P"
    and "\<exists>obs. grid_search_v1 L (train P) (valid P) = Inr obs
               \<and> retrain_cell 117 L obs (train P) (test P) = Inr (m, preds)"
  using assms by (auto simp: retrained_v1_def split: sum.splits prod.splits)

lemma retrained_v2_Inr:
  assumes "retrained_v2 R g L data = Inr (P, m, preds)"
  shows "fst (partition_cell_v2 R g data) = Inr P"
    and "\<exists>obs. grid_search_v2 L (train P) (test P) = Inr obs
               \<and> retrain_cell 34 L obs (train P) (test P) = Inr (m, preds)"
  using assms by (auto simp: retrained_v2_def split: sum.splits prod.splits)

text \<open>
  C1, as the notebook has it. The final classifier is fitted on the training subset
  alone: the validation subset of variant 1 is not added to it, and variant 2 has none.
  Its predictions on the features of the test subset, with the targets of the test
  subset, are what the reporter tabulates.
\<close>

theorem retrained_on_training_subset:
  "(\<forall>P m preds. retrained_v1 R g L data = Inr (P, m, preds) \<longrightarrow>
        fst (partition_cell_v1 R g data) = Inr P
      \<and> (\<exists>\<gamma> c. fit L \<gamma> c None (train P) = Inr m)
      \<and> preds = predict L m (map fst (test P))
      \<and> notebook_v1 R g L mem data = result_reporter mem preds (map snd (test P)))
   \<and> (\<forall>P m preds. retrained_v2 R g L data = Inr (P, m, preds) \<longrightarrow>
        fst (partition_cell_v2 R g data) = Inr P
      \<and> (\<exists>\<gamma> c. fit L \<gamma> c None (train P) = Inr m)
      \<and> preds = predict L m (map fst (test P))
      \<and> notebook_v2 R g L mem data = result_reporter mem preds (map snd (test P)))"
proof (intro conjI allI impI)
  fix P m preds
  assume run: "retrained_v1 R g L data = Inr (P, m, preds)"
  show "fst (partition_cell_v1 R g data) = Inr P"
    by (rule retrained_v1_Inr(1) [OF run])
  from retrained_v1_Inr(2) [OF run] obtain obs where
    r: "retrain_cell 117 L obs (train P) (test P) = Inr (m, preds)"
    by blast
  show "\<exists>\<gamma> c. fit L \<gamma> c None (train P) = Inr m" "preds = predict L m (map fst (test P))"
    by (rule retrain_cell_Inr [OF r])+
  show "notebook_v1 R g L mem data = result_reporter mem preds (map snd (test P))"
    by (simp add: notebook_v1_def run)
next
  fix P m preds
  assume run: "retrained_v2 R g L data = Inr (P, m, preds)"
  show "fst (partition_cell_v2 R g data) = Inr P"
    by (rule retrained_v2_Inr(1) [OF run])
  from retrained_v2_Inr(2) [OF run] obtain obs where
    r: "retrain_cell 34 L obs (train P) (test P) = Inr (m, preds)"
    by blast
  show "\<exists>\<gamma> c. fit L \<gamma> c None (train P) = Inr m" "preds = predict L m (map fst (test P))"
    by (rule retrain_cell_Inr [OF r])+
  show "notebook_v2 R g L mem data = result_reporter mem preds (map snd (test P))"
    by (simp add: notebook_v2_def run)
qed

lemma seven_partition_v1:
  "fst (partition_cell_v1 rotating_rng 0 seven)
     = Inr \<lparr>train = [(4, 1), (5, 2), (1, 1), (2, 2)], valid = [(3, 0)], test = [(6, 1), (0, 0)]\<rparr>"
  by code_simp

lemma seven_partition_v2:
  "fst (partition_cell_v2 rotating_rng 0 seven)
     = Inr \<lparr>train = [(2, 2), (3, 0), (4, 1), (5, 2), (6, 1)], valid = [], test = [(0, 0), (1, 1)]\<rparr>"
  by code_simp

lemma seven_retrained_v1:
  "retrained_v1 rotating_rng 0 recording_svc seven
     = Inr (\<lparr>train = [(4, 1), (5, 2), (1, 1), (2, 2)], valid = [(3, 0)], test = [(6, 1), (0, 0)]\<rparr>,
            (1, 118 / 100, None, [(4, 1), (5, 2), (1, 1), (2, 2)]), [0, 0])"
proof -
  let ?tr = "[(4, 1), (5, 2), (1, 1), (2, 2)] :: nat dataset"
  let ?va = "[(3, 0)] :: nat dataset"
  let ?te = "[(6, 1), (0, 0)] :: nat dataset"
  from select_recording_v1 [of ?tr ?va] obtain obs where
    run: "grid_search_v1 recording_svc ?tr ?va = Inr obs" and
    sel: "selection_cell 117 obs = Inr (0, 1, 1, 118 / 100)"
    by blast
  have r: "retrain_cell 117 recording_svc obs ?tr ?te = Inr ((1, 118 / 100, None, ?tr), [0, 0])"
    unfolding retrain_v1(3) [OF run] by (simp add: recording_svc_def)
  show ?thesis
    unfolding retrained_v1_def seven_partition_v1
    by (simp only: sum.case partition.select_convs run sel r prod.case)
qed

lemma seven_retrained_v2:
  "retrained_v2 rotating_rng 0 recording_svc seven
     = Inr (\<lparr>train = [(2, 2), (3, 0), (4, 1), (5, 2), (6, 1)], valid = [], test = [(0, 0), (1, 1)]\<rparr>,
            (2, 5 / 10, None, [(2, 2), (3, 0), (4, 1), (5, 2), (6, 1)]), [0, 0])"
proof -
  let ?tr = "[(2, 2), (3, 0), (4, 1), (5, 2), (6, 1)] :: nat dataset"
  let ?te = "[(0, 0), (1, 1)] :: nat dataset"
  from select_recording_v2 [of ?tr ?te] obtain obs where
    run: "grid_search_v2 recording_svc ?tr ?te = Inr obs" and
    sel: "selection_cell 34 obs = Inr (0, 1, 2, 5 / 10)"
    by blast
  have r: "retrain_cell 34 recording_svc obs ?tr ?te = Inr ((2, 5 / 10, None, ?tr), [0, 0])"
    unfolding retrain_v2(3) [OF run] by (simp add: recording_svc_def)
  show ?thesis
    unfolding retrained_v2_def seven_partition_v2
    by (simp only: sum.case partition.select_convs run sel r prod.case)
qed

theorem retrained_on_training_subset_witness:
  "retrained_v1 rotating_rng 0 recording_svc seven
     = Inr (\<lparr>train = [(4, 1), (5, 2), (1, 1), (2, 2)], valid = [(3, 0)], test = [(6, 1), (0, 0)]\<rparr>,
            (1, 118 / 100, None, [(4, 1), (5, 2), (1, 1), (2, 2)]), [0, 0])
   \<and> notebook_v1 rotating_rng 0 recording_svc (\<lambda>j. []) seven
       = result_reporter (\<lambda>j. []) [0, 0] [1, 0]
   \<and> retrained_v2 rotating_rng 0 recording_svc seven
     = Inr (\<lparr>train = [(2, 2), (3, 0), (4, 1), (5, 2), (6, 1)], valid = [], test = [(0, 0), (1, 1)]\<rparr>,
            (2, 5 / 10, None, [(2, 2), (3, 0), (4, 1), (5, 2), (6, 1)]), [0, 0])
   \<and> notebook_v2 rotating_rng 0 recording_svc (\<lambda>j. []) seven
       = result_reporter (\<lambda>j. []) [0, 0] [0, 1]"
proof -
  note t = retrained_on_training_subset [of rotating_rng 0 recording_svc seven "\<lambda>j. []"]
  note a = t [THEN conjunct1, THEN spec, THEN spec, THEN spec, THEN mp, OF seven_retrained_v1]
  note b = t [THEN conjunct2, THEN spec, THEN spec, THEN spec, THEN mp, OF seven_retrained_v2]
  have "notebook_v1 rotating_rng 0 recording_svc (\<lambda>j. []) seven
       = result_reporter (\<lambda>j. []) [0, 0] [1, 0]"
    using a by simp
  moreover have "notebook_v2 rotating_rng 0 recording_svc (\<lambda>j. []) seven
       = result_reporter (\<lambda>j. []) [0, 0] [0, 1]"
    using b by simp
  ultimately show ?thesis
    using seven_retrained_v1 seven_retrained_v2 by blast
qed

text \<open>
  On the seven records the final classifier of variant 1 is fitted on the four training
  records; the validation record is not among them.
\<close>

theorem retrain_data_counterexample:
  "map_sum id (\<lambda>(P, (\<gamma>, c, rs, fitted_on), preds).
       (fitted_on, set (train P) \<union> set (valid P) \<subseteq> set fitted_on))
     (retrained_v1 rotating_rng 0 recording_svc seven)
   = Inr ([(4, 1), (5, 2), (1, 1), (2, 2)], False)"
  unfolding seven_retrained_v1 by simp

end
